theory Spec2Isabelle
  imports Complex_Main
begin

section \<open>Statistical performance validation: the statistics engine of validate\_performance.py\<close>

text \<open>
  The embedding follows \<^verbatim>\<open>src/validate_performance.py\<close>, class
  \<^verbatim>\<open>PerformanceValidator\<close>. Python floats are idealised as the real numbers:
  every arithmetic operation is exact, so rounding, overflow, infinities and NaN are
  outside the model. Exceptions are values of the type \<open>error\<close>; a function that can
  raise returns \<open>error + 'a\<close>, with \<open>Inl\<close> for the exception. The only mutable
  state, the field \<^verbatim>\<open>self.violations\<close>, is threaded through the functions that
  write it. Methods that never touch the instance take no validator argument. A leading
  underscore of a Python name is dropped.
\<close>

subsection \<open>Exceptions and their propagation\<close>

datatype error =
    EmptyDataset          \<comment> \<open>\<^verbatim>\<open>ValueError("Cannot calculate statistics for empty dataset")\<close>\<close>
  | StatisticsError       \<comment> \<open>raised by \<^verbatim>\<open>statistics.mean/median/stdev\<close>\<close>
  | ZeroDivisionError
  | IndexError
  | MathDomainError       \<comment> \<open>\<^verbatim>\<open>ValueError("math domain error")\<close> of \<^verbatim>\<open>math.sqrt\<close>\<close>
  | EmptySequence         \<comment> \<open>\<^verbatim>\<open>ValueError\<close> of \<^verbatim>\<open>min\<close> and \<^verbatim>\<open>max\<close> on an empty list\<close>
  | OverflowError         \<comment> \<open>a result beyond the range of a double, where Python raises\<close>
  | NanToInteger          \<comment> \<open>\<^verbatim>\<open>ValueError\<close> of \<^verbatim>\<open>int\<close> on a NaN\<close>

definition bind_e :: "error + 'a \<Rightarrow> ('a \<Rightarrow> error + 'b) \<Rightarrow> error + 'b" where
  "bind_e m f = (case m of Inl e \<Rightarrow> Inl e | Inr x \<Rightarrow> f x)"

subsection \<open>Python primitives used by the validator\<close>

definition float_div :: "real \<Rightarrow> real \<Rightarrow> error + real" where
  "float_div a b = (if b = 0 then Inl ZeroDivisionError else Inr (a / b))"

definition math_sqrt :: "real \<Rightarrow> error + real" where
  "math_sqrt x = (if x < 0 then Inl MathDomainError else Inr (sqrt x))"

text \<open>\<^verbatim>\<open>int(x)\<close> on a float truncates towards zero.\<close>

definition py_int :: "real \<Rightarrow> int" where
  "py_int x = (if 0 \<le> x then \<lfloor>x\<rfloor> else \<lceil>x\<rceil>)"

text \<open>Subscripting \<^verbatim>\<open>xs[i]\<close>: indices \<open>-len \<le> i < 0\<close> wrap around once, and an
  index outside \<open>-len \<le> i < len\<close> raises \<^verbatim>\<open>IndexError\<close>.\<close>

definition py_index :: "'a list \<Rightarrow> int \<Rightarrow> error + 'a" where
  "py_index xs i =
     (if 0 \<le> i \<and> i < int (length xs) then Inr (xs ! nat i)
      else if i < 0 \<and> - int (length xs) \<le> i then Inr (xs ! nat (int (length xs) + i))
      else Inl IndexError)"

definition py_min :: "real list \<Rightarrow> error + real" where
  "py_min xs = (case xs of [] \<Rightarrow> Inl EmptySequence | x # ys \<Rightarrow> Inr (fold min ys x))"

definition py_max :: "real list \<Rightarrow> error + real" where
  "py_max xs = (case xs of [] \<Rightarrow> Inl EmptySequence | x # ys \<Rightarrow> Inr (fold max ys x))"

text \<open>The module \<^verbatim>\<open>statistics\<close>: arithmetic mean, median of the sorted data, and the
  Bessel-corrected sample standard deviation.\<close>

definition statistics_mean :: "real list \<Rightarrow> error + real" where
  "statistics_mean xs =
     (if xs = [] then Inl StatisticsError else Inr (sum_list xs / real (length xs)))"

definition statistics_median :: "real list \<Rightarrow> error + real" where
  "statistics_median xs =
     (let data = sort xs; n = length data
      in if n = 0 then Inl StatisticsError
         else if n mod 2 = 1 then Inr (data ! (n div 2))
         else Inr ((data ! (n div 2 - 1) + data ! (n div 2)) / 2))"

definition statistics_variance :: "real list \<Rightarrow> error + real" where
  "statistics_variance xs =
     (let n = length xs
      in if n < 2 then Inl StatisticsError
         else let c = sum_list xs / real n
              in Inr ((\<Sum>x\<leftarrow>xs. (x - c)\<^sup>2) / real (n - 1)))"

definition statistics_stdev :: "real list \<Rightarrow> error + real" where
  "statistics_stdev xs = bind_e (statistics_variance xs) (\<lambda>v. Inr (sqrt v))"

subsection \<open>String formatting of the violation messages\<close>

definition digit_char :: "nat \<Rightarrow> char" where
  "digit_char d = ''0123456789'' ! d"

fun str_nat :: "nat \<Rightarrow> string" where
  "str_nat n = (if n < 10 then [digit_char n] else str_nat (n div 10) @ [digit_char (n mod 10)])"

definition round_half_even :: "real \<Rightarrow> int" where
  "round_half_even y =
     (let f = \<lfloor>y\<rfloor>; d = y - of_int f
      in if d < 1 / 2 then f else if 1 / 2 < d then f + 1
         else if even f then f else f + 1)"

text \<open>The format \<^verbatim>\<open>{x:.3f}\<close>: sign, integer part, and three decimals.\<close>

definition fmt_3f :: "real \<Rightarrow> string" where
  "fmt_3f x =
     (let k = nat (round_half_even (\<bar>x\<bar> * 1000));
          frac = k mod 1000
      in (if x < 0 then ''-'' else '''') @ str_nat (k div 1000) @ ''.'' @
         [digit_char (frac div 100), digit_char (frac div 10 mod 10), digit_char (frac mod 10)])"

subsection \<open>Data model\<close>

record StatisticalSummary =
  sample_size :: nat
  mean :: real
  median :: real
  std_dev :: real
  min_val :: real
  max_val :: real
  p25 :: real
  p75 :: real
  p95 :: real
  p99 :: real
  confidence_interval_95 :: "real \<times> real"
  coefficient_variation :: real

record ComparisonResult =
  baseline_stats :: StatisticalSummary
  optimized_stats :: StatisticalSummary
  improvement_percent :: real
  improvement_absolute :: real
  p_value :: real
  cohens_d_val :: real
  confidence_interval_diff :: "real \<times> real"
  statistical_significance :: bool
  practical_significance :: bool
  sample_adequate :: bool

record PerformanceValidator =
  strict_mode :: bool
  violations :: "string list"

definition MIN_SAMPLE_SIZE :: nat where "MIN_SAMPLE_SIZE = 30"
definition SIGNIFICANCE_LEVEL :: real where "SIGNIFICANCE_LEVEL = 5 / 100"
definition MIN_EFFECT_SIZE :: real where "MIN_EFFECT_SIZE = 5 / 10"
definition CONFIDENCE_LEVEL :: real where "CONFIDENCE_LEVEL = 95 / 100"
definition MAX_CV :: real where "MAX_CV = 3 / 10"

text \<open>\<^verbatim>\<open>__init__\<close>: a fresh validator has no violations.\<close>

definition init :: "bool \<Rightarrow> PerformanceValidator" where
  "init strict = \<lparr>strict_mode = strict, violations = []\<rparr>"

subsection \<open>Operations\<close>

definition sample_size_message :: "nat \<Rightarrow> string" where
  "sample_size_message n =
     ''Insufficient sample size: '' @ str_nat n @ '' < '' @ str_nat MIN_SAMPLE_SIZE"

definition validate_sample_size :: "PerformanceValidator \<Rightarrow> nat \<Rightarrow> bool \<times> PerformanceValidator" where
  "validate_sample_size self n =
     (if n < MIN_SAMPLE_SIZE
      then (False, self\<lparr>violations := violations self @ [sample_size_message n]\<rparr>)
      else (True, self))"

definition percentile :: "real list \<Rightarrow> real \<Rightarrow> error + real" where
  "percentile sorted_values p =
     (if sorted_values = [] then Inr 0
      else let n = int (length sorted_values)
        in if n = 1 then py_index sorted_values 0
           else let rank = (p / 100) * of_int (n - 1);
                    lower_idx = py_int rank;
                    upper_idx = min (lower_idx + 1) (n - 1)
             in if lower_idx = upper_idx then py_index sorted_values lower_idx
                else let weight = rank - of_int lower_idx
                  in bind_e (py_index sorted_values lower_idx) (\<lambda>lo.
                     bind_e (py_index sorted_values upper_idx) (\<lambda>hi.
                     Inr (lo * (1 - weight) + hi * weight))))"

definition calculate_statistics :: "real list \<Rightarrow> error + StatisticalSummary" where
  "calculate_statistics values =
     (if values = [] then Inl EmptyDataset
      else let n = length values in
        bind_e (statistics_mean values) (\<lambda>mean_val.
        bind_e (statistics_median values) (\<lambda>median_val.
        bind_e (if 1 < n then statistics_stdev values else Inr 0) (\<lambda>std_dev.
        let sorted_vals = sort values in
        bind_e (percentile sorted_vals 25) (\<lambda>p25.
        bind_e (percentile sorted_vals 75) (\<lambda>p75.
        bind_e (percentile sorted_vals 95) (\<lambda>p95.
        bind_e (percentile sorted_vals 99) (\<lambda>p99.
        bind_e (if 1 < n
                then bind_e (math_sqrt (real n)) (\<lambda>root.
                     bind_e (float_div std_dev root) (\<lambda>q.
                     let margin_error = 196 / 100 * q
                     in Inr (mean_val - margin_error, mean_val + margin_error)))
                else Inr (mean_val, mean_val)) (\<lambda>ci.
        bind_e (if mean_val \<noteq> 0 then float_div std_dev mean_val else Inr 0) (\<lambda>cv.
        bind_e (py_min values) (\<lambda>mn.
        bind_e (py_max values) (\<lambda>mx.
        Inr \<lparr>sample_size = n, mean = mean_val, median = median_val, std_dev = std_dev,
             min_val = mn, max_val = mx, p25 = p25, p75 = p75, p95 = p95, p99 = p99,
             confidence_interval_95 = ci, coefficient_variation = cv\<rparr>))))))))))))"

definition norm_cdf :: "real \<Rightarrow> real" where
  "norm_cdf x = (if 6 < x then 1 else if x < - 6 then 0 else 5 / 10 + 5 / 10 * tanh (x * (7 / 10)))"

definition two_sample_ttest :: "real list \<Rightarrow> real list \<Rightarrow> error + real \<times> real" where
  "two_sample_ttest baseline optimized =
     (let n1 = length baseline; n2 = length optimized
      in if n1 < 2 \<or> n2 < 2 then Inr (0, 1)
         else
           bind_e (statistics_mean baseline) (\<lambda>mean1.
           bind_e (statistics_mean optimized) (\<lambda>mean2.
           bind_e (statistics_stdev baseline) (\<lambda>std1.
           bind_e (statistics_stdev optimized) (\<lambda>std2.
           bind_e (float_div (std1\<^sup>2) (real n1)) (\<lambda>q1.
           bind_e (float_div (std2\<^sup>2) (real n2)) (\<lambda>q2.
           bind_e (math_sqrt (q1 + q2)) (\<lambda>pooled_se.
           if pooled_se = 0 then Inr (0, 1)
           else
             bind_e (float_div (mean2 - mean1) pooled_se) (\<lambda>t_stat.
             let p_value = 2 * (1 - norm_cdf \<bar>t_stat\<bar>)
             in Inr (t_stat, min p_value 1))))))))))"

definition cohens_d :: "real list \<Rightarrow> real list \<Rightarrow> error + real" where
  "cohens_d baseline optimized =
     (if length baseline < 2 \<or> length optimized < 2 then Inr 0
      else
        bind_e (statistics_mean baseline) (\<lambda>mean1.
        bind_e (statistics_mean optimized) (\<lambda>mean2.
        bind_e (statistics_stdev baseline) (\<lambda>std1.
        bind_e (statistics_stdev optimized) (\<lambda>std2.
        let n1 = int (length baseline); n2 = int (length optimized) in
        bind_e (float_div (of_int (n1 - 1) * std1\<^sup>2 + of_int (n2 - 1) * std2\<^sup>2)
                       (of_int (n1 + n2 - 2))) (\<lambda>q.
        bind_e (math_sqrt q) (\<lambda>pooled_std.
        if pooled_std = 0 then Inr 0
        else float_div (mean2 - mean1) pooled_std)))))))"

definition baseline_cv_message :: "real \<Rightarrow> string" where
  "baseline_cv_message cv = ''High baseline variability: CV='' @ fmt_3f cv @ '' > 0.3''"

definition optimized_cv_message :: "real \<Rightarrow> string" where
  "optimized_cv_message cv = ''High optimized variability: CV='' @ fmt_3f cv @ '' > 0.3''"

text \<open>
  \<^verbatim>\<open>validate_performance_comparison\<close>. The result pairs what the call returns or raises
  with the validator as the call leaves it: an exception does not undo the writes to
  \<^verbatim>\<open>self.violations\<close> made before it. The sample-size conjunction is Python's
  short-circuit \<^verbatim>\<open>and\<close>: its right operand runs only when the left one is true.
\<close>

definition validate_performance_comparison ::
  "PerformanceValidator \<Rightarrow> real list \<Rightarrow> real list \<Rightarrow> (error + ComparisonResult) \<times> PerformanceValidator" where
  "validate_performance_comparison self baseline_data optimized_data =
     (let self1 = self\<lparr>violations := []\<rparr>;
          (ok1, self2) = validate_sample_size self1 (length baseline_data);
          (sample_ok, self3) =
             (if ok1 then validate_sample_size self2 (length optimized_data) else (False, self2))
      in case calculate_statistics baseline_data of
           Inl e \<Rightarrow> (Inl e, self3)
         | Inr b_stats \<Rightarrow>
      (case calculate_statistics optimized_data of
           Inl e \<Rightarrow> (Inl e, self3)
         | Inr o_stats \<Rightarrow>
      let self4 = (if MAX_CV < coefficient_variation b_stats
                   then self3\<lparr>violations := violations self3 @
                                 [baseline_cv_message (coefficient_variation b_stats)]\<rparr>
                   else self3);
          self5 = (if MAX_CV < coefficient_variation o_stats
                   then self4\<lparr>violations := violations self4 @
                                 [optimized_cv_message (coefficient_variation o_stats)]\<rparr>
                   else self4);
          imp_abs = mean o_stats - mean b_stats
      in (bind_e (if mean b_stats \<noteq> 0
                  then bind_e (float_div imp_abs (mean b_stats)) (\<lambda>q. Inr (q * 100))
                  else Inr 0) (\<lambda>imp_pct.
          bind_e (two_sample_ttest baseline_data optimized_data) (\<lambda>(t_stat, p_val).
          bind_e (cohens_d baseline_data optimized_data) (\<lambda>effect_size.
          let stat_sig = (p_val < SIGNIFICANCE_LEVEL);
              prac_sig = (MIN_EFFECT_SIZE \<le> \<bar>effect_size\<bar>)
          in
          bind_e (if 1 < length baseline_data \<and> 1 < length optimized_data
                  then bind_e (float_div ((std_dev b_stats)\<^sup>2) (real (length baseline_data))) (\<lambda>q1.
                       bind_e (float_div ((std_dev o_stats)\<^sup>2) (real (length optimized_data))) (\<lambda>q2.
                       bind_e (math_sqrt (q1 + q2)) (\<lambda>se_diff.
                       let margin = 196 / 100 * se_diff
                       in Inr (imp_abs - margin, imp_abs + margin))))
                  else Inr (imp_abs, imp_abs)) (\<lambda>ci.
          Inr \<lparr>baseline_stats = b_stats, optimized_stats = o_stats,
               improvement_percent = imp_pct, improvement_absolute = imp_abs,
               p_value = p_val, cohens_d_val = effect_size,
               confidence_interval_diff = ci,
               statistical_significance = stat_sig,
               practical_significance = prac_sig,
               sample_adequate = sample_ok\<rparr>)))), self5)))"

definition is_claim_valid :: "PerformanceValidator \<Rightarrow> ComparisonResult \<Rightarrow> bool" where
  "is_claim_valid self comparison =
     (sample_adequate comparison \<and> statistical_significance comparison \<and>
      practical_significance comparison \<and> length (violations self) = 0)"

subsection \<open>Quantities the specification names\<close>

text \<open>
  The percentile as the specification words it: rank \<open>(p/100)(n-1)\<close>, the floor of the
  rank as lower index, the next index capped at \<open>n-1\<close> as upper index, and the
  fractional part of the rank as weight. It is compared with \<open>percentile\<close> below.
\<close>

definition spec_percentile :: "real list \<Rightarrow> real \<Rightarrow> real" where
  "spec_percentile xs p =
     (let n = length xs;
          rank = (p / 100) * real (n - 1);
          lowerIndex = nat \<lfloor>rank\<rfloor>;
          upperIndex = min (lowerIndex + 1) (n - 1);
          weight = rank - real lowerIndex
      in xs ! lowerIndex * (1 - weight) + xs ! upperIndex * weight)"

text \<open>Linear interpolation between the order statistics of a list at a real-valued rank.\<close>

definition interp :: "real list \<Rightarrow> real \<Rightarrow> real" where
  "interp xs r = xs ! nat \<lfloor>r\<rfloor> * (1 - (r - real (nat \<lfloor>r\<rfloor>))) +
                 xs ! min (nat \<lfloor>r\<rfloor> + 1) (length xs - 1) * (r - real (nat \<lfloor>r\<rfloor>))"

text \<open>Mean, Bessel-corrected variance, and the median of a sample, as plain formulas.\<close>

definition mean_of :: "real list \<Rightarrow> real" where
  "mean_of xs = sum_list xs / real (length xs)"

definition variance_of :: "real list \<Rightarrow> real" where
  "variance_of xs = (\<Sum>x\<leftarrow>xs. (x - mean_of xs)\<^sup>2) / real (length xs - 1)"

definition stdev_of :: "real list \<Rightarrow> real" where
  "stdev_of xs = (if 1 < length xs then sqrt (variance_of xs) else 0)"

definition median_of :: "real list \<Rightarrow> real" where
  "median_of xs =
     (let data = sort xs; n = length data
      in if n mod 2 = 1 then data ! (n div 2)
         else (data ! (n div 2 - 1) + data ! (n div 2)) / 2)"

text \<open>The pooled standard error and pooled standard deviation of the comparator.\<close>

definition pooled_se_of :: "real list \<Rightarrow> real list \<Rightarrow> real" where
  "pooled_se_of b opt =
     sqrt ((stdev_of b)\<^sup>2 / real (length b) + (stdev_of opt)\<^sup>2 / real (length opt))"

definition pooled_std_of :: "real list \<Rightarrow> real list \<Rightarrow> real" where
  "pooled_std_of b opt =
     sqrt ((real (length b - 1) * (stdev_of b)\<^sup>2 + real (length opt - 1) * (stdev_of opt)\<^sup>2)
           / real (length b + length opt - 2))"

section \<open>The descriptive statistics in binary64 arithmetic\<close>

text \<open>
  The definitions above compute with exact reals. Where rounding or overflow decides
  what the code does, \<^verbatim>\<open>calculate_statistics\<close> and what it calls are embedded a second
  time, with the arithmetic of CPython floats (IEEE-754 binary64, round to nearest, ties
  to even). A finite double is the real number it denotes, the two zeros are one value,
  and the infinities and NaN are values of their own. The input list holds finite
  doubles. The module \<^verbatim>\<open>statistics\<close> is the one of CPython 3.11: mean and variance are
  computed as exact fractions and converted to a double by one correctly rounded
  division, which raises \<^verbatim>\<open>OverflowError\<close> when the result is out of range.
\<close>

subsection \<open>Rounding\<close>

definition binade :: "real \<Rightarrow> int" where
  "binade x = \<lfloor>log 2 \<bar>x\<bar>\<rfloor>"

text \<open>The exponent of the unit in the last place: 52 below the binade, and \<open>-1074\<close> for
  subnormal numbers.\<close>

definition ulp_exponent :: "real \<Rightarrow> int" where
  "ulp_exponent x = max (binade x - 52) (- 1074)"

definition rnd64 :: "real \<Rightarrow> real" where
  "rnd64 x =
     (if x = 0 then 0
      else of_int (round_half_even (x / 2 powi ulp_exponent x)) * 2 powi ulp_exponent x)"

text \<open>The largest finite double, and the least magnitude that rounds to infinity.\<close>

definition MAX_DOUBLE :: real where
  "MAX_DOUBLE = 2 ^ 1024 - 2 ^ 971"

definition ROUND_TO_INF :: real where
  "ROUND_TO_INF = 2 ^ 1024 - 2 ^ 970"

datatype f64 = Fin real | PInf | NInf | NaN

text \<open>The result of a hardware operation whose exact value is \<open>x\<close>: overflow gives an
  infinity and raises nothing.\<close>

definition f64_round :: "real \<Rightarrow> f64" where
  "f64_round x =
     (if ROUND_TO_INF \<le> x then PInf else if x \<le> - ROUND_TO_INF then NInf else Fin (rnd64 x))"

text \<open>The conversions that CPython checks: an exact ratio (the true division of two
  integers) to a double, and an integer to a double.\<close>

definition f64_of_ratio :: "real \<Rightarrow> error + f64" where
  "f64_of_ratio x = (if ROUND_TO_INF \<le> \<bar>x\<bar> then Inl OverflowError else Inr (Fin (rnd64 x)))"

definition f64_of_int :: "int \<Rightarrow> error + f64" where
  "f64_of_int i = f64_of_ratio (of_int i)"

subsection \<open>Operations on doubles\<close>

fun f64_neg :: "f64 \<Rightarrow> f64" where
  "f64_neg (Fin x) = Fin (- x)"
| "f64_neg PInf = NInf"
| "f64_neg NInf = PInf"
| "f64_neg NaN = NaN"

fun f64_add :: "f64 \<Rightarrow> f64 \<Rightarrow> f64" where
  "f64_add (Fin x) (Fin y) = f64_round (x + y)"
| "f64_add NaN b = NaN"
| "f64_add a NaN = NaN"
| "f64_add PInf NInf = NaN"
| "f64_add NInf PInf = NaN"
| "f64_add PInf b = PInf"
| "f64_add NInf b = NInf"
| "f64_add (Fin x) b = b"

definition f64_sub :: "f64 \<Rightarrow> f64 \<Rightarrow> f64" where
  "f64_sub a b = f64_add a (f64_neg b)"

text \<open>The sign of a double, and the infinity of a given sign; a product or quotient
  of sign zero with an infinity operand is NaN.\<close>

fun f64_sgn :: "f64 \<Rightarrow> real" where
  "f64_sgn (Fin x) = sgn x"
| "f64_sgn PInf = 1"
| "f64_sgn NInf = - 1"
| "f64_sgn NaN = 0"

definition inf_of_sign :: "real \<Rightarrow> f64" where
  "inf_of_sign s = (if s = 0 then NaN else if 0 < s then PInf else NInf)"

fun f64_mul :: "f64 \<Rightarrow> f64 \<Rightarrow> f64" where
  "f64_mul (Fin x) (Fin y) = f64_round (x * y)"
| "f64_mul NaN b = NaN"
| "f64_mul a NaN = NaN"
| "f64_mul a b = inf_of_sign (f64_sgn a * f64_sgn b)"

text \<open>\<^verbatim>\<open>a / b\<close>: a zero divisor raises, whatever the dividend.\<close>

fun f64_truediv :: "f64 \<Rightarrow> f64 \<Rightarrow> error + f64" where
  "f64_truediv (Fin x) (Fin y) =
     (if y = 0 then Inl ZeroDivisionError else Inr (f64_round (x / y)))"
| "f64_truediv a (Fin y) =
     (if y = 0 then Inl ZeroDivisionError
      else if a = NaN then Inr NaN else Inr (inf_of_sign (f64_sgn a * sgn y)))"
| "f64_truediv NaN b = Inr NaN"
| "f64_truediv a NaN = Inr NaN"
| "f64_truediv (Fin x) b = Inr (Fin 0)"
| "f64_truediv a b = Inr NaN"

fun math_sqrt_f64 :: "f64 \<Rightarrow> error + f64" where
  "math_sqrt_f64 (Fin x) = (if x < 0 then Inl MathDomainError else Inr (Fin (rnd64 (sqrt x))))"
| "math_sqrt_f64 PInf = Inr PInf"
| "math_sqrt_f64 NInf = Inl MathDomainError"
| "math_sqrt_f64 NaN = Inr NaN"

text \<open>\<^verbatim>\<open>int(x)\<close> on a double.\<close>

fun f64_int :: "f64 \<Rightarrow> error + int" where
  "f64_int (Fin x) = Inr (py_int x)"
| "f64_int NaN = Inl NanToInteger"
| "f64_int a = Inl OverflowError"

text \<open>The comparison \<^verbatim>\<open>a <= b\<close>: false whenever an operand is NaN.\<close>

fun f64_le :: "f64 \<Rightarrow> f64 \<Rightarrow> bool" where
  "f64_le (Fin x) (Fin y) = (x \<le> y)"
| "f64_le NaN b = False"
| "f64_le a NaN = False"
| "f64_le NInf b = True"
| "f64_le a PInf = True"
| "f64_le a b = False"

subsection \<open>The module \<^verbatim>\<open>statistics\<close> on doubles\<close>

definition statistics_mean_f64 :: "real list \<Rightarrow> error + f64" where
  "statistics_mean_f64 xs =
     (if xs = [] then Inl StatisticsError else f64_of_ratio (sum_list xs / real (length xs)))"

definition statistics_median_f64 :: "real list \<Rightarrow> error + f64" where
  "statistics_median_f64 xs =
     (let data = sort xs; n = length data
      in if n = 0 then Inl StatisticsError
         else if n mod 2 = 1 then Inr (Fin (data ! (n div 2)))
         else f64_truediv (f64_add (Fin (data ! (n div 2 - 1))) (Fin (data ! (n div 2))))
                          (Fin 2))"

definition statistics_stdev_f64 :: "real list \<Rightarrow> error + f64" where
  "statistics_stdev_f64 xs =
     (let n = length xs
      in if n < 2 then Inl StatisticsError
         else let c = sum_list xs / real n;
                  mss = (\<Sum>x\<leftarrow>xs. (x - c)\<^sup>2) / real (n - 1)
              in f64_of_ratio (sqrt mss))"

subsection \<open>Percentile and summary on doubles\<close>

record StatisticalSummary_f64 =
  sample_size_f :: nat
  mean_f :: f64
  median_f :: f64
  std_dev_f :: f64
  min_val_f :: f64
  max_val_f :: f64
  p25_f :: f64
  p75_f :: f64
  p95_f :: f64
  p99_f :: f64
  confidence_interval_95_f :: "f64 \<times> f64"
  coefficient_variation_f :: f64

definition percentile_f64 :: "real list \<Rightarrow> int \<Rightarrow> error + f64" where
  "percentile_f64 sorted_values p =
     (if sorted_values = [] then Inr (Fin 0)
      else let n = int (length sorted_values)
        in if n = 1 then bind_e (py_index sorted_values 0) (\<lambda>x. Inr (Fin x))
           else
             bind_e (f64_of_int p) (\<lambda>pf.
             bind_e (f64_truediv pf (Fin 100)) (\<lambda>c.
             bind_e (f64_of_int (n - 1)) (\<lambda>m.
             let rank = f64_mul c m in
             bind_e (f64_int rank) (\<lambda>lower_idx.
             let upper_idx = min (lower_idx + 1) (n - 1)
             in if lower_idx = upper_idx
                then bind_e (py_index sorted_values lower_idx) (\<lambda>x. Inr (Fin x))
                else
                  bind_e (f64_of_int lower_idx) (\<lambda>lf.
                  let weight = f64_sub rank lf in
                  bind_e (py_index sorted_values lower_idx) (\<lambda>lo.
                  let left = f64_mul (Fin lo) (f64_sub (Fin 1) weight) in
                  bind_e (py_index sorted_values upper_idx) (\<lambda>hi.
                  Inr (f64_add left (f64_mul (Fin hi) weight))))))))))"

definition calculate_statistics_f64 :: "real list \<Rightarrow> error + StatisticalSummary_f64" where
  "calculate_statistics_f64 values =
     (if values = [] then Inl EmptyDataset
      else let n = length values in
        bind_e (statistics_mean_f64 values) (\<lambda>mean_val.
        bind_e (statistics_median_f64 values) (\<lambda>median_val.
        bind_e (if 1 < n then statistics_stdev_f64 values else Inr (Fin 0)) (\<lambda>std_dev.
        let sorted_vals = sort values in
        bind_e (percentile_f64 sorted_vals 25) (\<lambda>p25.
        bind_e (percentile_f64 sorted_vals 75) (\<lambda>p75.
        bind_e (percentile_f64 sorted_vals 95) (\<lambda>p95.
        bind_e (percentile_f64 sorted_vals 99) (\<lambda>p99.
        bind_e (if 1 < n
                then bind_e (f64_of_int (int n)) (\<lambda>nf.
                     bind_e (math_sqrt_f64 nf) (\<lambda>root.
                     bind_e (f64_truediv std_dev root) (\<lambda>q.
                     let margin_error = f64_mul (Fin (rnd64 (196 / 100))) q
                     in Inr (f64_sub mean_val margin_error, f64_add mean_val margin_error))))
                else Inr (mean_val, mean_val)) (\<lambda>ci.
        bind_e (if mean_val \<noteq> Fin 0 then f64_truediv std_dev mean_val else Inr (Fin 0)) (\<lambda>cv.
        bind_e (py_min values) (\<lambda>mn.
        bind_e (py_max values) (\<lambda>mx.
        Inr \<lparr>sample_size_f = n, mean_f = mean_val, median_f = median_val,
             std_dev_f = std_dev, min_val_f = Fin mn, max_val_f = Fin mx,
             p25_f = p25, p75_f = p75, p95_f = p95, p99_f = p99,
             confidence_interval_95_f = ci, coefficient_variation_f = cv\<rparr>))))))))))))"

section \<open>Basic facts\<close>

declare str_nat.simps [simp del]

lemma bind_e_Inr [simp]: "bind_e (Inr x) f = f x"
  by (simp add: bind_e_def)

lemma bind_e_Inl [simp]: "bind_e (Inl e) f = Inl e"
  by (simp add: bind_e_def)

lemma py_index_nat: "i < length xs \<Longrightarrow> py_index xs (int i) = Inr (xs ! i)"
  by (simp add: py_index_def)

lemma rank_bounds:
  assumes "0 \<le> p" "p \<le> 100" "0 < n"
  shows "0 \<le> (p / 100) * real (n - 1)" "(p / 100) * real (n - 1) \<le> real (n - 1)"
proof -
  show "0 \<le> (p / 100) * real (n - 1)" using assms by simp
  have "p / 100 \<le> 1" using assms by simp
  then have "(p / 100) * real (n - 1) \<le> 1 * real (n - 1)"
    by (rule mult_right_mono) simp
  then show "(p / 100) * real (n - 1) \<le> real (n - 1)" by simp
qed

lemma percentile_eq_spec:
  assumes "xs \<noteq> []" "0 \<le> p" "p \<le> 100"
  shows "percentile xs p = Inr (spec_percentile xs p)"
proof (cases "length xs = 1")
  case True
  then show ?thesis using assms(1)
    by (simp add: percentile_def spec_percentile_def py_index_def)
next
  case False
  with assms have n2: "2 \<le> length xs" by (cases xs) (auto simp: Suc_le_eq)
  define n where "n = length xs"
  define rank where "rank = (p / 100) * real (n - 1)"
  define l where "l = nat \<lfloor>rank\<rfloor>"
  have r0: "0 \<le> rank" and r1: "rank \<le> real (n - 1)"
    using rank_bounds[of p n] assms n2 by (simp_all add: rank_def n_def)
  have fl: "\<lfloor>rank\<rfloor> = int l" using r0 by (simp add: l_def)
  have "\<lfloor>rank\<rfloor> \<le> \<lfloor>real (n - 1)\<rfloor>" using r1 by (rule floor_mono)
  then have ln: "l \<le> n - 1" using fl by simp
  have pyint: "py_int rank = int l" using r0 fl by (simp add: py_int_def)
  have rk: "(p / 100) * real_of_int (int (length xs) - 1) = rank"
    using n2 by (simp add: rank_def n_def)
  have nn: "int (length xs) \<noteq> 1" "xs \<noteq> []" using n2 by auto
  have unf: "percentile xs p =
     (if py_int rank = min (py_int rank + 1) (int n - 1) then py_index xs (py_int rank)
      else bind_e (py_index xs (py_int rank)) (\<lambda>lo.
           bind_e (py_index xs (min (py_int rank + 1) (int n - 1))) (\<lambda>hi.
           Inr (lo * (1 - (rank - of_int (py_int rank))) + hi * (rank - of_int (py_int rank))))))"
    unfolding percentile_def Let_def rk n_def using nn by simp
  have sp: "spec_percentile xs p =
      xs ! l * (1 - (rank - real l)) + xs ! min (l + 1) (n - 1) * (rank - real l)"
    unfolding spec_percentile_def Let_def n_def[symmetric] rank_def[symmetric] l_def[symmetric] ..
  show ?thesis
  proof (cases "l = n - 1")
    case True
    then have "real l \<le> rank" using fl by linarith
    with r1 True have w0: "rank - real l = 0" by simp
    have m: "min (int l + 1) (int n - 1) = int l" using True n2 by (auto simp: n_def)
    have "l < length xs" using True n2 by (simp add: n_def)
    then show ?thesis unfolding unf sp pyint w0 m
      by (simp add: py_index_nat)
  next
    case F: False
    with ln have l1: "l + 1 \<le> n - 1" by simp
    then have m: "min (int l + 1) (int n - 1) = int (l + 1)" "min (l + 1) (n - 1) = l + 1"
      using n2 by (auto simp: n_def)
    have "l < length xs" "l + 1 < length xs" using l1 n2 by (simp_all add: n_def)
    then show ?thesis unfolding unf sp pyint m
      by (simp add: py_index_nat del: of_nat_Suc of_nat_add)
  qed
qed

lemma statistics_mean_Inr: "xs \<noteq> [] \<Longrightarrow> statistics_mean xs = Inr (mean_of xs)"
  by (simp add: statistics_mean_def mean_of_def)

lemma sort_eq_Nil_iff: "sort xs = [] \<longleftrightarrow> xs = []"
  by (metis length_sort length_0_conv)

lemma statistics_median_Inr: "xs \<noteq> [] \<Longrightarrow> statistics_median xs = Inr (median_of xs)"
  by (simp add: statistics_median_def median_of_def Let_def sort_eq_Nil_iff)

lemma statistics_stdev_Inr: "2 \<le> length xs \<Longrightarrow> statistics_stdev xs = Inr (stdev_of xs)"
  by (simp add: statistics_stdev_def statistics_variance_def stdev_of_def variance_of_def
      mean_of_def Let_def)

lemma py_min_Inr: "xs \<noteq> [] \<Longrightarrow> py_min xs = Inr (Min (set xs))"
  by (cases xs) (simp_all add: py_min_def Min.set_eq_fold[symmetric] del: set_simps)

lemma py_max_Inr: "xs \<noteq> [] \<Longrightarrow> py_max xs = Inr (Max (set xs))"
  by (cases xs) (simp_all add: py_max_def Max.set_eq_fold[symmetric] del: set_simps)

lemma stdev_stage:
  "(if 1 < length xs then statistics_stdev xs else Inr 0) = Inr (stdev_of xs)"
  by (simp add: statistics_stdev_Inr) (simp add: stdev_of_def)

lemma ci_stage:
  "(if 1 < n
    then bind_e (math_sqrt (real n)) (\<lambda>root.
         bind_e (float_div sd root) (\<lambda>q.
         Inr (m - 196 / 100 * q, m + 196 / 100 * q)))
    else Inr (m, m)) =
   Inr (if 1 < n then (m - 196 / 100 * (sd / sqrt (real n)), m + 196 / 100 * (sd / sqrt (real n)))
        else (m, m))"
  by (simp add: math_sqrt_def float_div_def Let_def)

lemma cv_stage:
  "(if m \<noteq> 0 then float_div sd m else Inr 0) = Inr (if m \<noteq> 0 then sd / m else 0)"
  by (simp add: float_div_def)

lemma calculate_statistics_Inr:
  assumes "values \<noteq> []"
  shows "calculate_statistics values =
    Inr \<lparr>sample_size = length values, mean = mean_of values, median = median_of values,
         std_dev = stdev_of values,
         min_val = Min (set values), max_val = Max (set values),
         p25 = spec_percentile (sort values) 25, p75 = spec_percentile (sort values) 75,
         p95 = spec_percentile (sort values) 95, p99 = spec_percentile (sort values) 99,
         confidence_interval_95 =
           (if 1 < length values
            then (mean_of values - 196 / 100 * (stdev_of values / sqrt (real (length values))),
                  mean_of values + 196 / 100 * (stdev_of values / sqrt (real (length values))))
            else (mean_of values, mean_of values)),
         coefficient_variation =
           (if mean_of values \<noteq> 0 then stdev_of values / mean_of values else 0)\<rparr>"
proof -
  have s: "sort values \<noteq> []" using assms by (simp add: sort_eq_Nil_iff)
  have p: "percentile (sort values) 25 = Inr (spec_percentile (sort values) 25)"
     "percentile (sort values) 75 = Inr (spec_percentile (sort values) 75)"
     "percentile (sort values) 95 = Inr (spec_percentile (sort values) 95)"
     "percentile (sort values) 99 = Inr (spec_percentile (sort values) 99)"
    using s by (simp_all add: percentile_eq_spec)
  show ?thesis
    unfolding calculate_statistics_def Let_def
    by (simp only: assms if_False statistics_mean_Inr[OF assms] statistics_median_Inr[OF assms]
        stdev_stage ci_stage cv_stage p py_min_Inr[OF assms] py_max_Inr[OF assms] bind_e_Inr)
qed

lemma spec_percentile_between:
  assumes "sorted xs" "xs \<noteq> []" "0 \<le> r" "r \<le> real (length xs - 1)"
  defines "l \<equiv> nat \<lfloor>r\<rfloor>"
  defines "u \<equiv> min (l + 1) (length xs - 1)"
  defines "v \<equiv> xs ! l * (1 - (r - real l)) + xs ! u * (r - real l)"
  shows "xs ! l \<le> v" "v \<le> xs ! u" "l \<le> length xs - 1"
proof -
  have fl: "real l \<le> r" "r < real l + 1" using assms(3) unfolding l_def by linarith+
  have "\<lfloor>r\<rfloor> \<le> \<lfloor>real (length xs - 1)\<rfloor>" using assms(4) by (rule floor_mono)
  then show ln: "l \<le> length xs - 1" unfolding l_def using assms(3) by simp
  have pos: "0 < length xs" using assms(2) by simp
  from ln pos have lu: "l \<le> u" "u < length xs" unfolding u_def by arith+
  then have le: "xs ! l \<le> xs ! u" using assms(1) by (simp add: sorted_nth_mono)
  define w where "w = r - real l"
  have w: "0 \<le> w" "w \<le> 1" using fl by (simp_all add: w_def)
  have "v = xs ! l + w * (xs ! u - xs ! l)" unfolding v_def w_def by (simp add: algebra_simps)
  moreover have "0 \<le> w * (xs ! u - xs ! l)" using w le by simp
  ultimately show "xs ! l \<le> v" by simp
  have "v = xs ! u - (1 - w) * (xs ! u - xs ! l)" unfolding v_def w_def by (simp add: algebra_simps)
  moreover have "0 \<le> (1 - w) * (xs ! u - xs ! l)" using w le by simp
  ultimately show "v \<le> xs ! u" by simp
qed

lemma interp_mono:
  assumes "sorted xs" "xs \<noteq> []" "0 \<le> r" "r \<le> s" "s \<le> real (length xs - 1)"
  shows "interp xs r \<le> interp xs s"
proof (cases "\<lfloor>r\<rfloor> = \<lfloor>s\<rfloor>")
  case True
  define l where "l = nat \<lfloor>r\<rfloor>"
  define u where "u = min (l + 1) (length xs - 1)"
  have ls: "nat \<lfloor>s\<rfloor> = l" using True by (simp add: l_def)
  have "l \<le> length xs - 1"
    using spec_percentile_between(3)[OF assms(1,2,3)] assms(4,5) by (simp add: l_def)
  moreover have "0 < length xs" using assms(2) by simp
  ultimately have "l \<le> u" "u < length xs" unfolding u_def by arith+
  then have le: "xs ! l \<le> xs ! u" using assms(1) by (simp add: sorted_nth_mono)
  have "interp xs s - interp xs r = (s - r) * (xs ! u - xs ! l)"
    unfolding interp_def ls l_def[symmetric] u_def[symmetric] by (simp add: algebra_simps)
  moreover have "0 \<le> (s - r) * (xs ! u - xs ! l)" using le assms(4) by simp
  ultimately show ?thesis by simp
next
  case False
  have "\<lfloor>r\<rfloor> \<le> \<lfloor>s\<rfloor>" using assms(4) by (rule floor_mono)
  with False have lt: "\<lfloor>r\<rfloor> < \<lfloor>s\<rfloor>" by simp
  have r0: "0 \<le> \<lfloor>r\<rfloor>" using assms(3) by simp
  have s0: "0 \<le> s" using assms(3,4) by simp
  have r1: "r \<le> real (length xs - 1)" using assms(4,5) by simp
  define lr where "lr = nat \<lfloor>r\<rfloor>"
  define ls where "ls = nat \<lfloor>s\<rfloor>"
  have lrs: "lr + 1 \<le> ls" using lt r0 unfolding lr_def ls_def by linarith
  have lsn: "ls \<le> length xs - 1"
    using spec_percentile_between(3)[OF assms(1,2) s0 assms(5)] by (simp add: ls_def)
  have a: "interp xs r \<le> xs ! min (lr + 1) (length xs - 1)"
    using spec_percentile_between(2)[OF assms(1,2,3) r1] by (simp add: interp_def lr_def)
  have b: "xs ! ls \<le> interp xs s"
    using spec_percentile_between(1)[OF assms(1,2) s0 assms(5)] by (simp add: interp_def ls_def)
  have "min (lr + 1) (length xs - 1) \<le> ls" using lrs by simp
  moreover have "ls < length xs" using lsn assms(2) by (cases xs) simp_all
  ultimately have "xs ! min (lr + 1) (length xs - 1) \<le> xs ! ls"
    using assms(1) by (simp add: sorted_nth_mono)
  with a b show ?thesis by linarith
qed

lemma spec_percentile_interp:
  "spec_percentile xs p = interp xs ((p / 100) * real (length xs - 1))"
  by (simp add: spec_percentile_def interp_def Let_def)

lemma interp_of_nat: "interp ys (real k) = ys ! k"
  by (simp add: interp_def)

lemma interp_half:
  assumes "j + 1 \<le> length ys - 1"
  shows "interp ys (real j + 1 / 2) = (ys ! j + ys ! (j + 1)) / 2"
proof -
  have fl: "\<lfloor>real j + 1 / 2\<rfloor> = int j" by linarith
  have m: "min (j + 1) (length ys - 1) = j + 1" using assms by simp
  show ?thesis unfolding interp_def fl nat_int m by (simp add: field_simps)
qed

lemma median_of_interp:
  assumes "xs \<noteq> []"
  shows "median_of xs = interp (sort xs) (real (length xs - 1) / 2)"
proof -
  define n where "n = length xs"
  have n0: "0 < n" using assms by (simp add: n_def)
  show ?thesis
  proof (cases "n mod 2 = 1")
    case True
    then have "odd n" by presburger
    then obtain k where k: "n = 2 * k + 1" by (auto elim: oddE)
    then have r: "real (n - 1) / 2 = real k" by simp
    have "n div 2 = k" using k by simp
    then show ?thesis using True
      unfolding median_of_def Let_def length_sort n_def[symmetric] r interp_of_nat
      by simp
  next
    case False
    then have "even n" by presburger
    then obtain k where k: "n = 2 * k" by (auto elim: evenE)
    with n0 have k1: "1 \<le> k" by simp
    then obtain j where j: "k = j + 1" by (metis add.commute le_Suc_ex)
    have r: "real (n - 1) / 2 = real j + 1 / 2" using k j by simp
    have d: "n div 2 = j + 1" using k j by simp
    have "j + 1 \<le> length (sort xs) - 1" using k j by (simp add: n_def[symmetric])
    then have i: "interp (sort xs) (real j + 1 / 2) = (sort xs ! j + sort xs ! (j + 1)) / 2"
      by (rule interp_half)
    show ?thesis using False
      unfolding median_of_def Let_def length_sort n_def[symmetric] r i d
      by simp
  qed
qed

lemma interp_bounds:
  assumes "xs \<noteq> []" "0 \<le> r" "r \<le> real (length xs - 1)"
  shows "Min (set xs) \<le> interp (sort xs) r" "interp (sort xs) r \<le> Max (set xs)"
proof -
  let ?ys = "sort xs"
  have ys: "sorted ?ys" "?ys \<noteq> []" "r \<le> real (length ?ys - 1)"
    using assms by (simp_all add: sort_eq_Nil_iff)
  define l where "l = nat \<lfloor>r\<rfloor>"
  define u where "u = min (l + 1) (length ?ys - 1)"
  have pos: "0 < length ?ys" using assms(1) by simp
  have ln: "l \<le> length ?ys - 1"
    using spec_percentile_between(3)[OF ys(1,2) assms(2) ys(3)] by (simp add: l_def)
  with pos have lt: "l < length ?ys" "u < length ?ys" unfolding u_def by arith+
  then have mem: "?ys ! l \<in> set xs" "?ys ! u \<in> set xs"
    by (metis nth_mem set_sort)+
  have lo: "?ys ! l \<le> interp ?ys r"
    using spec_percentile_between(1)[OF ys(1,2) assms(2) ys(3)]
    by (simp add: interp_def l_def)
  have hi: "interp ?ys r \<le> ?ys ! u"
    using spec_percentile_between(2)[OF ys(1,2) assms(2) ys(3)]
    by (simp add: interp_def l_def u_def)
  have "Min (set xs) \<le> ?ys ! l" using mem(1) by simp
  with lo show "Min (set xs) \<le> interp ?ys r" by linarith
  have "?ys ! u \<le> Max (set xs)" using mem(2) by simp
  with hi show "interp ?ys r \<le> Max (set xs)" by linarith
qed

lemma quartile_order:
  assumes "values \<noteq> []"
  shows "Min (set values) \<le> spec_percentile (sort values) 25"
    and "spec_percentile (sort values) 25 \<le> median_of values"
    and "median_of values \<le> spec_percentile (sort values) 75"
    and "spec_percentile (sort values) 75 \<le> Max (set values)"
proof -
  let ?ys = "sort values"
  define m where "m = real (length values - 1)"
  have m0: "0 \<le> m" by (simp add: m_def)
  have ys: "sorted ?ys" "?ys \<noteq> []" using assms by (simp_all add: sort_eq_Nil_iff)
  have p25: "spec_percentile ?ys 25 = interp ?ys (m / 4)"
    by (simp add: spec_percentile_interp m_def)
  have p75: "spec_percentile ?ys 75 = interp ?ys (3 * m / 4)"
    by (simp add: spec_percentile_interp m_def)
  have med: "median_of values = interp ?ys (m / 2)"
    using median_of_interp[OF assms] by (simp add: m_def)
  have le: "m / 4 \<le> m / 2" "m / 2 \<le> 3 * m / 4" "3 * m / 4 \<le> m" "0 \<le> m / 4" "0 \<le> m / 2"
    "m / 4 \<le> m"
    using m0 by simp_all
  have lm: "m = real (length ?ys - 1)" by (simp add: m_def)
  show "Min (set values) \<le> spec_percentile ?ys 25"
    unfolding p25 using interp_bounds(1)[OF assms, of "m / 4"] le by (simp add: m_def)
  show "spec_percentile ?ys 75 \<le> Max (set values)"
    unfolding p75 using interp_bounds(2)[OF assms, of "3 * m / 4"] le m0 by (simp add: m_def)
  show "spec_percentile ?ys 25 \<le> median_of values"
    unfolding p25 med
    by (rule interp_mono[OF ys]) (use le lm in simp_all)
  show "median_of values \<le> spec_percentile ?ys 75"
    unfolding p75 med
    by (rule interp_mono[OF ys]) (use le lm in simp_all)
qed

lemma variance_of_nonneg: "0 \<le> variance_of xs"
  unfolding variance_of_def
  by (intro divide_nonneg_nonneg sum_list_nonneg) auto

lemma stdev_of_nonneg: "0 \<le> stdev_of xs"
  by (simp add: stdev_of_def variance_of_nonneg)

lemma two_sample_ttest_small:
  "length b < 2 \<or> length opt < 2 \<Longrightarrow> two_sample_ttest b opt = Inr (0, 1)"
  by (auto simp: two_sample_ttest_def Let_def)

lemma two_sample_ttest_large:
  assumes "2 \<le> length b" "2 \<le> length opt"
  shows "two_sample_ttest b opt =
     (if pooled_se_of b opt = 0 then Inr (0, 1)
      else Inr ((mean_of opt - mean_of b) / pooled_se_of b opt,
                min (2 * (1 - norm_cdf \<bar>(mean_of opt - mean_of b) / pooled_se_of b opt\<bar>)) 1))"
proof -
  have ne: "b \<noteq> []" "opt \<noteq> []" using assms by auto
  have g: "\<not> (length b < 2 \<or> length opt < 2)" using assms by simp
  have d1: "float_div ((stdev_of b)\<^sup>2) (real (length b)) = Inr ((stdev_of b)\<^sup>2 / real (length b))"
    using ne by (simp add: float_div_def)
  have d2: "float_div ((stdev_of opt)\<^sup>2) (real (length opt)) =
            Inr ((stdev_of opt)\<^sup>2 / real (length opt))"
    using ne by (simp add: float_div_def)
  have sq: "math_sqrt ((stdev_of b)\<^sup>2 / real (length b) + (stdev_of opt)\<^sup>2 / real (length opt)) =
            Inr (pooled_se_of b opt)"
    by (simp add: math_sqrt_def pooled_se_of_def not_less)
  have dv: "pooled_se_of b opt \<noteq> 0 \<Longrightarrow> float_div x (pooled_se_of b opt) = Inr (x / pooled_se_of b opt)"
    for x by (simp add: float_div_def)
  show ?thesis
    unfolding two_sample_ttest_def Let_def
    by (simp only: g if_False statistics_mean_Inr[OF ne(1)] statistics_mean_Inr[OF ne(2)]
        statistics_stdev_Inr[OF assms(1)] statistics_stdev_Inr[OF assms(2)] bind_e_Inr d1 d2 sq)
       (simp add: dv)
qed

lemma pooled_std_div:
  assumes "2 \<le> length b" "2 \<le> length opt"
  shows "float_div (of_int (int (length b) - 1) * (stdev_of b)\<^sup>2 +
                    of_int (int (length opt) - 1) * (stdev_of opt)\<^sup>2)
                   (of_int (int (length b) + int (length opt) - 2)) =
         Inr ((real (length b - 1) * (stdev_of b)\<^sup>2 + real (length opt - 1) * (stdev_of opt)\<^sup>2)
              / real (length b + length opt - 2))"
proof -
  have a: "(of_int (int (length b) - 1) :: real) = real (length b - 1)"
    "(of_int (int (length opt) - 1) :: real) = real (length opt - 1)"
    "(of_int (int (length b) + int (length opt) - 2) :: real) = real (length b + length opt - 2)"
    using assms by (simp_all add: of_nat_diff)
  have "real (length b + length opt - 2) \<noteq> 0" using assms by simp
  then show ?thesis unfolding a by (simp add: float_div_def)
qed

lemma cohens_d_small:
  "length b < 2 \<or> length opt < 2 \<Longrightarrow> cohens_d b opt = Inr 0"
  by (auto simp: cohens_d_def)

lemma cohens_d_large:
  assumes "2 \<le> length b" "2 \<le> length opt"
  shows "cohens_d b opt =
     (if pooled_std_of b opt = 0 then Inr 0
      else Inr ((mean_of opt - mean_of b) / pooled_std_of b opt))"
proof -
  have ne: "b \<noteq> []" "opt \<noteq> []" using assms by auto
  have g: "\<not> (length b < 2 \<or> length opt < 2)" using assms by simp
  have sq: "math_sqrt ((real (length b - 1) * (stdev_of b)\<^sup>2 +
                        real (length opt - 1) * (stdev_of opt)\<^sup>2)
                       / real (length b + length opt - 2)) = Inr (pooled_std_of b opt)"
    by (simp add: math_sqrt_def pooled_std_of_def not_less)
  show ?thesis
    unfolding cohens_d_def Let_def
    by (simp only: g if_False statistics_mean_Inr[OF ne(1)] statistics_mean_Inr[OF ne(2)]
        statistics_stdev_Inr[OF assms(1)] statistics_stdev_Inr[OF assms(2)] bind_e_Inr
        pooled_std_div[OF assms] sq)
       (simp add: float_div_def)
qed

lemma norm_cdf_abs_bounds: "1 / 2 \<le> norm_cdf \<bar>x\<bar>" "norm_cdf \<bar>x\<bar> \<le> 1"
proof -
  have "0 \<le> tanh (\<bar>x\<bar> * (7 / 10))" by simp
  moreover have "tanh (\<bar>x\<bar> * (7 / 10)) < 1" by (rule tanh_real_lt_1)
  ultimately show "1 / 2 \<le> norm_cdf \<bar>x\<bar>" "norm_cdf \<bar>x\<bar> \<le> 1"
    unfolding norm_cdf_def by auto
qed

lemma p_value_range:
  "0 \<le> 2 * (1 - norm_cdf \<bar>t\<bar>)" "2 * (1 - norm_cdf \<bar>t\<bar>) \<le> 1"
  using norm_cdf_abs_bounds[of t] by simp_all

lemma two_sample_ttest_total:
  "\<exists>t p. two_sample_ttest b opt = Inr (t, p) \<and> 0 \<le> p \<and> p \<le> 1"
proof (cases "length b < 2 \<or> length opt < 2")
  case True
  then show ?thesis by (simp add: two_sample_ttest_small)
next
  case False
  then have l: "2 \<le> length b" "2 \<le> length opt" by simp_all
  show ?thesis
    using p_value_range[of "(mean_of opt - mean_of b) / pooled_se_of b opt"]
    by (simp add: two_sample_ttest_large[OF l] min_def)
qed

lemma cohens_d_total: "\<exists>d. cohens_d b opt = Inr d"
proof (cases "length b < 2 \<or> length opt < 2")
  case True
  then show ?thesis by (simp add: cohens_d_small)
next
  case False
  then have l: "2 \<le> length b" "2 \<le> length opt" by simp_all
  show ?thesis by (simp add: cohens_d_large[OF l])
qed

lemma stdev_of_pair: "stdev_of [a, c] = sqrt ((a - (a + c) / 2)\<^sup>2 + (c - (a + c) / 2)\<^sup>2)"
  by (simp add: stdev_of_def variance_of_def mean_of_def)

lemma improvement_stage:
  "(if m \<noteq> 0 then bind_e (float_div a m) (\<lambda>q. Inr (q * 100)) else Inr 0) =
   Inr (if m \<noteq> 0 then a / m * 100 else 0)"
  by (simp add: float_div_def)

lemma ci_diff_stage:
  "(if 1 < n1 \<and> 1 < n2
    then bind_e (float_div (s1\<^sup>2) (real n1)) (\<lambda>q1.
         bind_e (float_div (s2\<^sup>2) (real n2)) (\<lambda>q2.
         bind_e (math_sqrt (q1 + q2)) (\<lambda>se_diff.
         Inr (a - 196 / 100 * se_diff, a + 196 / 100 * se_diff))))
    else Inr (a, a)) =
   Inr (if 1 < n1 \<and> 1 < n2
        then (a - 196 / 100 * sqrt (s1\<^sup>2 / real n1 + s2\<^sup>2 / real n2),
              a + 196 / 100 * sqrt (s1\<^sup>2 / real n1 + s2\<^sup>2 / real n2))
        else (a, a))"
proof -
  have "\<not> s1\<^sup>2 / real n1 + s2\<^sup>2 / real n2 < 0" by (simp add: not_less)
  then show ?thesis by (simp add: float_div_def math_sqrt_def)
qed


lemma size_stage:
  "(let self1 = v\<lparr>violations := []\<rparr>;
        (ok1, self2) = validate_sample_size self1 n1;
        (sample_ok, self3) = (if ok1 then validate_sample_size self2 n2 else (False, self2))
    in f sample_ok self3) =
   f (MIN_SAMPLE_SIZE \<le> n1 \<and> MIN_SAMPLE_SIZE \<le> n2)
     (v\<lparr>violations := (if n1 < MIN_SAMPLE_SIZE then [sample_size_message n1]
                        else if n2 < MIN_SAMPLE_SIZE then [sample_size_message n2] else [])\<rparr>)"
  by (simp add: validate_sample_size_def Let_def)

lemma validate_empty_baseline:
  "validate_performance_comparison v [] opt =
     (Inl EmptyDataset, v\<lparr>violations := [sample_size_message 0]\<rparr>)"
  unfolding validate_performance_comparison_def size_stage
  by (simp add: calculate_statistics_def MIN_SAMPLE_SIZE_def)

lemma validate_empty_optimized:
  assumes "b \<noteq> []"
  shows "fst (validate_performance_comparison v b []) = Inl EmptyDataset"
  unfolding validate_performance_comparison_def size_stage
  by (simp add: calculate_statistics_Inr[OF assms]) (simp add: calculate_statistics_def)

lemma validate_nonempty:
  assumes "b \<noteq> []" "opt \<noteq> []"
  shows "\<exists>r t. validate_performance_comparison v b opt =
          (Inr r,
           v\<lparr>violations :=
               (if length b < MIN_SAMPLE_SIZE then [sample_size_message (length b)]
                else if length opt < MIN_SAMPLE_SIZE then [sample_size_message (length opt)]
                else []) @
               (if MAX_CV < coefficient_variation (baseline_stats r)
                then [baseline_cv_message (coefficient_variation (baseline_stats r))] else []) @
               (if MAX_CV < coefficient_variation (optimized_stats r)
                then [optimized_cv_message (coefficient_variation (optimized_stats r))] else [])\<rparr>) \<and>
        calculate_statistics b = Inr (baseline_stats r) \<and>
        calculate_statistics opt = Inr (optimized_stats r) \<and>
        two_sample_ttest b opt = Inr (t, p_value r) \<and>
        cohens_d b opt = Inr (cohens_d_val r) \<and>
        sample_adequate r = (MIN_SAMPLE_SIZE \<le> length b \<and> MIN_SAMPLE_SIZE \<le> length opt) \<and>
        statistical_significance r = (p_value r < SIGNIFICANCE_LEVEL) \<and>
        practical_significance r = (MIN_EFFECT_SIZE \<le> \<bar>cohens_d_val r\<bar>)"
proof -
  obtain bs where bs: "calculate_statistics b = Inr bs"
    using calculate_statistics_Inr[OF assms(1)] by blast
  obtain os where os: "calculate_statistics opt = Inr os"
    using calculate_statistics_Inr[OF assms(2)] by blast
  obtain t p where tp: "two_sample_ttest b opt = Inr (t, p)"
    using two_sample_ttest_total[of b opt] by blast
  obtain d where d: "cohens_d b opt = Inr d"
    using cohens_d_total[of b opt] by blast
  define R where "R =
     \<lparr>baseline_stats = bs, optimized_stats = os,
      improvement_percent = (if mean bs \<noteq> 0 then (mean os - mean bs) / mean bs * 100 else 0),
      improvement_absolute = mean os - mean bs,
      p_value = p, cohens_d_val = d,
      confidence_interval_diff =
        (if 1 < length b \<and> 1 < length opt
         then (mean os - mean bs - 196 / 100 *
                 sqrt ((std_dev bs)\<^sup>2 / real (length b) + (std_dev os)\<^sup>2 / real (length opt)),
               mean os - mean bs + 196 / 100 *
                 sqrt ((std_dev bs)\<^sup>2 / real (length b) + (std_dev os)\<^sup>2 / real (length opt)))
         else (mean os - mean bs, mean os - mean bs)),
      statistical_significance = (p < SIGNIFICANCE_LEVEL),
      practical_significance = (MIN_EFFECT_SIZE \<le> \<bar>d\<bar>),
      sample_adequate = (MIN_SAMPLE_SIZE \<le> length b \<and> MIN_SAMPLE_SIZE \<le> length opt)\<rparr>"
  have res: "fst (validate_performance_comparison v b opt) = Inr R"
    unfolding validate_performance_comparison_def size_stage
    by (simp only: bs os tp d sum.case Let_def improvement_stage ci_diff_stage bind_e_Inr
        prod.case fst_conv R_def)
  have st: "snd (validate_performance_comparison v b opt) =
      v\<lparr>violations :=
          (if length b < MIN_SAMPLE_SIZE then [sample_size_message (length b)]
           else if length opt < MIN_SAMPLE_SIZE then [sample_size_message (length opt)]
           else []) @
          (if MAX_CV < coefficient_variation bs
           then [baseline_cv_message (coefficient_variation bs)] else []) @
          (if MAX_CV < coefficient_variation os
           then [optimized_cv_message (coefficient_variation os)] else [])\<rparr>"
    unfolding validate_performance_comparison_def size_stage
    by (simp add: bs os Let_def)
  have "validate_performance_comparison v b opt =
      (fst (validate_performance_comparison v b opt), snd (validate_performance_comparison v b opt))"
    by simp
  then have eq: "validate_performance_comparison v b opt = (Inr R, v\<lparr>violations :=
          (if length b < MIN_SAMPLE_SIZE then [sample_size_message (length b)]
           else if length opt < MIN_SAMPLE_SIZE then [sample_size_message (length opt)]
           else []) @
          (if MAX_CV < coefficient_variation bs
           then [baseline_cv_message (coefficient_variation bs)] else []) @
          (if MAX_CV < coefficient_variation os
           then [optimized_cv_message (coefficient_variation os)] else [])\<rparr>)"
    unfolding res st .
  have f: "baseline_stats R = bs" "optimized_stats R = os" "p_value R = p" "cohens_d_val R = d"
    "sample_adequate R = (MIN_SAMPLE_SIZE \<le> length b \<and> MIN_SAMPLE_SIZE \<le> length opt)"
    "statistical_significance R = (p < SIGNIFICANCE_LEVEL)"
    "practical_significance R = (MIN_EFFECT_SIZE \<le> \<bar>d\<bar>)"
    by (simp_all add: R_def)
  show ?thesis
    by (rule exI[of _ R], rule exI[of _ t]) (simp only: f eq bs os tp d simp_thms)
qed

lemma sample_size_message_0: "sample_size_message 0 = ''Insufficient sample size: 0 < 30''"
  by (simp add: sample_size_message_def MIN_SAMPLE_SIZE_def str_nat.simps digit_char_def)

lemma mean_of_replicate: "0 < n \<Longrightarrow> mean_of (replicate n v) = v"
  by (simp add: mean_of_def sum_list_replicate)

lemma stdev_of_replicate: "stdev_of (replicate n v) = 0"
proof (cases "0 < n")
  case True
  have "(\<Sum>x\<leftarrow>replicate n v. (x - v)\<^sup>2) = 0"
    by (simp add: sum_list_replicate)
  then show ?thesis using True
    by (simp add: stdev_of_def variance_of_def mean_of_replicate)
next
  case False
  then show ?thesis by (simp add: stdev_of_def)
qed

lemma cv_replicate:
  assumes "0 < n" "calculate_statistics (replicate n v) = Inr s"
  shows "coefficient_variation s = 0" "std_dev s = 0" "mean s = v"
    "confidence_interval_95 s = (v, v)"
proof -
  have ne: "replicate n v \<noteq> []" using assms(1) by simp
  have s: "s = \<lparr>sample_size = length (replicate n v), mean = mean_of (replicate n v),
         median = median_of (replicate n v),
         std_dev = stdev_of (replicate n v),
         min_val = Min (set (replicate n v)), max_val = Max (set (replicate n v)),
         p25 = spec_percentile (sort (replicate n v)) 25,
         p75 = spec_percentile (sort (replicate n v)) 75,
         p95 = spec_percentile (sort (replicate n v)) 95,
         p99 = spec_percentile (sort (replicate n v)) 99,
         confidence_interval_95 =
           (if 1 < length (replicate n v)
            then (mean_of (replicate n v) - 196 / 100 * (stdev_of (replicate n v) / sqrt (real (length (replicate n v)))),
                  mean_of (replicate n v) + 196 / 100 * (stdev_of (replicate n v) / sqrt (real (length (replicate n v)))))
            else (mean_of (replicate n v), mean_of (replicate n v))),
         coefficient_variation =
           (if mean_of (replicate n v) \<noteq> 0 then stdev_of (replicate n v) / mean_of (replicate n v) else 0)\<rparr>"
    using assms(2) unfolding calculate_statistics_Inr[OF ne] by simp
  show "coefficient_variation s = 0" by (subst s) (simp add: stdev_of_replicate)
  show "std_dev s = 0" by (subst s) (simp add: stdev_of_replicate)
  show "mean s = v" by (subst s) (simp add: mean_of_replicate[OF assms(1)])
  show "confidence_interval_95 s = (v, v)"
    by (subst s) (simp add: stdev_of_replicate mean_of_replicate[OF assms(1)])
qed

section \<open>The claims\<close>

text \<open>
  Claim C1. After \<open>validate_performance_comparison\<close> has returned a result, the verdict
  \<open>is_claim_valid\<close> on that result and on the validator the call left behind is true
  exactly when the sample is adequate, the difference is statistically and practically
  significant, and the violation list is empty; if any one of the four fails, the
  verdict is false.
\<close>

theorem claim_validity_gate:
  "validate_performance_comparison v b opt = (Inr r, w) \<Longrightarrow>
   (is_claim_valid w r \<longleftrightarrow>
      sample_adequate r \<and> statistical_significance r \<and> practical_significance r \<and>
      violations w = []) \<and>
   (\<not> sample_adequate r \<or> \<not> statistical_significance r \<or> \<not> practical_significance r \<or>
      violations w \<noteq> [] \<longrightarrow> \<not> is_claim_valid w r)"
  by (auto simp: is_claim_valid_def)

theorem claim_validity_gate_witness:
  "\<exists>r w. validate_performance_comparison (init True) [1] [1] = (Inr r, w) \<and>
     (is_claim_valid w r \<longleftrightarrow>
        sample_adequate r \<and> statistical_significance r \<and> practical_significance r \<and>
        violations w = []) \<and>
     \<not> sample_adequate r \<and> \<not> is_claim_valid w r"
proof -
  obtain r t w where e: "validate_performance_comparison (init True) [1] [1] = (Inr r, w)"
    and a: "sample_adequate r = (MIN_SAMPLE_SIZE \<le> length [1::real] \<and> MIN_SAMPLE_SIZE \<le> length [1::real])"
    using validate_nonempty[of "[1]" "[1]" "init True"] by auto
  have na: "\<not> sample_adequate r" using a by (simp add: MIN_SAMPLE_SIZE_def)
  show ?thesis using claim_validity_gate[OF e] e na by simp
qed

text \<open>
  Claim C2, evaluated on the code. With a baseline of five and an optimized sample of
  seven measurements, both below the minimum of thirty, the call returns a result with
  \<open>sample_adequate\<close> false, but the violation list holds the baseline's message only:
  the conjunction short-circuits, so the optimized sample's size is never checked and
  its message is missing.
\<close>

theorem sample_size_short_circuit:
  "\<exists>r w. validate_performance_comparison (init True) [1, 1, 1, 1, 1] [1, 1, 1, 1, 1, 1, 1] =
            (Inr r, w) \<and>
          \<not> sample_adequate r \<and>
          violations w = [''Insufficient sample size: 5 < 30''] \<and>
          sample_size_message (length [1, 1, 1, 1, 1, 1, 1 :: real]) =
            ''Insufficient sample size: 7 < 30'' \<and>
          sample_size_message (length [1, 1, 1, 1, 1, 1, 1 :: real]) \<notin> set (violations w)"
proof -
  let ?b = "[1, 1, 1, 1, 1] :: real list"
  let ?o = "[1, 1, 1, 1, 1, 1, 1] :: real list"
  have rb: "?b = replicate 5 1" by (simp add: numeral_eq_Suc)
  have ro: "?o = replicate 7 1" by (simp add: numeral_eq_Suc)
  obtain r t where e: "validate_performance_comparison (init True) ?b ?o =
          (Inr r,
           (init True)\<lparr>violations :=
               (if length ?b < MIN_SAMPLE_SIZE then [sample_size_message (length ?b)]
                else if length ?o < MIN_SAMPLE_SIZE then [sample_size_message (length ?o)]
                else []) @
               (if MAX_CV < coefficient_variation (baseline_stats r)
                then [baseline_cv_message (coefficient_variation (baseline_stats r))] else []) @
               (if MAX_CV < coefficient_variation (optimized_stats r)
                then [optimized_cv_message (coefficient_variation (optimized_stats r))] else [])\<rparr>)"
    and cb: "calculate_statistics ?b = Inr (baseline_stats r)"
    and co: "calculate_statistics ?o = Inr (optimized_stats r)"
    and a: "sample_adequate r = (MIN_SAMPLE_SIZE \<le> length ?b \<and> MIN_SAMPLE_SIZE \<le> length ?o)"
    using validate_nonempty[of ?b ?o "init True"] by auto
  have cvb: "coefficient_variation (baseline_stats r) = 0"
    using cv_replicate(1)[of 5 1 "baseline_stats r"] cb unfolding rb by simp
  have cvo: "coefficient_variation (optimized_stats r) = 0"
    using cv_replicate(1)[of 7 1 "optimized_stats r"] co unfolding ro by simp
  have m5: "sample_size_message (length ?b) = ''Insufficient sample size: 5 < 30''"
    by (simp add: sample_size_message_def MIN_SAMPLE_SIZE_def str_nat.simps digit_char_def)
  have m7: "sample_size_message (length ?o) = ''Insufficient sample size: 7 < 30''"
    by (simp add: sample_size_message_def MIN_SAMPLE_SIZE_def str_nat.simps digit_char_def)
  have lt: "length ?b < MIN_SAMPLE_SIZE" by (simp add: MIN_SAMPLE_SIZE_def)
  have w: "validate_performance_comparison (init True) ?b ?o =
          (Inr r, (init True)\<lparr>violations := [''Insufficient sample size: 5 < 30'']\<rparr>)"
    using e unfolding cvb cvo m5 by (simp only: lt if_True) (simp add: MAX_CV_def)
  have na: "\<not> sample_adequate r" using a by (simp add: MIN_SAMPLE_SIZE_def)
  show ?thesis
    by (rule exI[of _ r], rule exI[of _ "(init True)\<lparr>violations := [''Insufficient sample size: 5 < 30'']\<rparr>"])
       (simp only: w na m7, simp)
qed

text \<open>
  Claim C3. On a list of at least two reals and for every \<open>p\<close> in \<open>[0, 100]\<close>,
  \<open>percentile\<close> returns the interpolation that the specification describes
  (\<open>spec_percentile\<close>); sortedness of the list is not needed for this equation. In
  particular the 50th percentile of the sorted list \<open>10, 20, 30, 40\<close> is \<open>25\<close>, the
  empty list gives \<open>0\<close>, and a one-element list gives its element for any \<open>p\<close>.
\<close>

theorem percentile_formula:
  "(2 \<le> length xs \<and> 0 \<le> p \<and> p \<le> 100 \<longrightarrow>
      percentile xs p = Inr (spec_percentile xs p) \<and>
      spec_percentile xs p =
        (let rank = (p / 100) * real (length xs - 1);
             lowerIndex = nat \<lfloor>rank\<rfloor>;
             upperIndex = min (lowerIndex + 1) (length xs - 1);
             weight = rank - real lowerIndex
         in xs ! lowerIndex * (1 - weight) + xs ! upperIndex * weight)) \<and>
   percentile (sort [10, 20, 30, 40]) 50 = Inr 25 \<and>
   percentile [] q = Inr 0 \<and>
   percentile [x] q = Inr x"
proof (intro conjI impI)
  assume h: "2 \<le> length xs \<and> 0 \<le> p \<and> p \<le> 100"
  then have "xs \<noteq> []" by auto
  with h show "percentile xs p = Inr (spec_percentile xs p)"
    by (simp add: percentile_eq_spec)
  show "spec_percentile xs p =
        (let rank = (p / 100) * real (length xs - 1);
             lowerIndex = nat \<lfloor>rank\<rfloor>;
             upperIndex = min (lowerIndex + 1) (length xs - 1);
             weight = rank - real lowerIndex
         in xs ! lowerIndex * (1 - weight) + xs ! upperIndex * weight)"
    by (simp add: spec_percentile_def Let_def)
next
  have s: "sort [10, 20, 30, 40 :: real] = [10, 20, 30, 40]" by simp
  have fl: "\<lfloor>3 / 2 :: real\<rfloor> = 1" by simp
  have "spec_percentile [10, 20, 30, 40] 50 = 25"
    by (simp add: spec_percentile_def Let_def fl)
  then show "percentile (sort [10, 20, 30, 40]) 50 = Inr 25"
    unfolding s by (simp add: percentile_eq_spec)
next
  show "percentile [] q = Inr 0" by (simp add: percentile_def)
next
  show "percentile [x] q = Inr x" by (simp add: percentile_def py_index_def)
qed

theorem percentile_formula_witness:
  "2 \<le> length [1, 3 :: real] \<and> (0::real) \<le> 50 \<and> (50::real) \<le> 100 \<and>
   percentile [1, 3] 50 = Inr 2"
proof -
  have fl: "\<lfloor>1 / 2 :: real\<rfloor> = 0" by simp
  have "spec_percentile [1, 3] 50 = 2"
    by (simp add: spec_percentile_def Let_def fl)
  then show ?thesis
    using percentile_formula[of "[1, 3]" 50 0 0] by simp
qed

text \<open>
  Claim C4. When either sample has fewer than two elements, or the pooled standard error
  \<open>sqrt (std1\<^sup>2 / n1 + std2\<^sup>2 / n2)\<close> is zero, \<open>two_sample_ttest\<close> returns
  \<open>(0, 1)\<close> and raises nothing; when either sample has fewer than two elements, or the
  pooled standard deviation is zero, \<open>cohens_d\<close> returns \<open>0\<close>.
\<close>

theorem degenerate_comparison:
  "(length b < 2 \<or> length opt < 2 \<or> pooled_se_of b opt = 0 \<longrightarrow>
      two_sample_ttest b opt = Inr (0, 1)) \<and>
   (length b < 2 \<or> length opt < 2 \<or> pooled_std_of b opt = 0 \<longrightarrow>
      cohens_d b opt = Inr 0)"
proof (intro conjI impI)
  assume h: "length b < 2 \<or> length opt < 2 \<or> pooled_se_of b opt = 0"
  show "two_sample_ttest b opt = Inr (0, 1)"
  proof (cases "length b < 2 \<or> length opt < 2")
    case True
    then show ?thesis by (rule two_sample_ttest_small)
  next
    case False
    then have l: "2 \<le> length b" "2 \<le> length opt" by simp_all
    from False h have "pooled_se_of b opt = 0" by blast
    then show ?thesis by (simp add: two_sample_ttest_large[OF l])
  qed
next
  assume h: "length b < 2 \<or> length opt < 2 \<or> pooled_std_of b opt = 0"
  show "cohens_d b opt = Inr 0"
  proof (cases "length b < 2 \<or> length opt < 2")
    case True
    then show ?thesis by (rule cohens_d_small)
  next
    case False
    then have l: "2 \<le> length b" "2 \<le> length opt" by simp_all
    from False h have "pooled_std_of b opt = 0" by blast
    then show ?thesis by (simp add: cohens_d_large[OF l])
  qed
qed

theorem degenerate_comparison_witness:
  "pooled_se_of [2, 2] [7, 7] = 0 \<and> two_sample_ttest [2, 2] [7, 7] = Inr (0, 1) \<and>
   pooled_std_of [2, 2] [7, 7] = 0 \<and> cohens_d [2, 2] [7, 7] = Inr 0 \<and>
   length [5 :: real] < 2 \<and> two_sample_ttest [5] [1, 2] = Inr (0, 1) \<and> cohens_d [5] [1, 2] = Inr 0"
proof -
  have se: "pooled_se_of [2, 2] [7, 7] = 0"
    by (simp add: pooled_se_of_def stdev_of_pair)
  have sd: "pooled_std_of [2, 2] [7, 7] = 0"
    by (simp add: pooled_std_of_def stdev_of_pair)
  show ?thesis
    using se sd degenerate_comparison[of "[2, 2]" "[7, 7]"] degenerate_comparison[of "[5]" "[1, 2]"]
    by simp
qed

text \<open>
  Claim C5. For every non-empty sample, \<open>calculate_statistics\<close> returns a summary, and
  that summary satisfies \<open>min \<le> p25 \<le> median \<le> p75 \<le> max\<close>, has a
  non-negative standard deviation, and has a coefficient of variation equal to
  \<open>std_dev / mean\<close> when the mean is not zero and to \<open>0\<close> when it is.
\<close>

theorem summary_invariant:
  assumes "values \<noteq> []"
  shows "\<exists>s. calculate_statistics values = Inr s \<and>
             min_val s \<le> p25 s \<and> p25 s \<le> median s \<and> median s \<le> p75 s \<and> p75 s \<le> max_val s \<and>
             0 \<le> std_dev s \<and>
             (mean s \<noteq> 0 \<longrightarrow> coefficient_variation s = std_dev s / mean s) \<and>
             (mean s = 0 \<longrightarrow> coefficient_variation s = 0)"
  using quartile_order[OF assms] stdev_of_nonneg[of "values"]
  by (simp add: calculate_statistics_Inr[OF assms])

theorem summary_invariant_witness:
  "[3, 1, 2] \<noteq> ([] :: real list) \<and>
   (\<exists>s. calculate_statistics [3, 1, 2] = Inr s \<and>
             min_val s \<le> p25 s \<and> p25 s \<le> median s \<and> median s \<le> p75 s \<and> p75 s \<le> max_val s \<and>
             0 \<le> std_dev s \<and>
             (mean s \<noteq> 0 \<longrightarrow> coefficient_variation s = std_dev s / mean s) \<and>
             (mean s = 0 \<longrightarrow> coefficient_variation s = 0))"
  using summary_invariant[of "[3, 1, 2]"] by simp

text \<open>
  Claim C6. \<open>calculate_statistics\<close> raises exactly on the empty sample, and what it
  raises there is the empty-dataset error; on every non-empty sample it returns a
  summary. \<open>validate_performance_comparison\<close> raises the same error, and returns no
  result, whenever the baseline or the optimized sample is empty.
\<close>

theorem empty_sample_error:
  "((\<exists>e. calculate_statistics values = Inl e) \<longleftrightarrow> values = []) \<and>
   (calculate_statistics values = Inl EmptyDataset \<longleftrightarrow> values = []) \<and>
   (values \<noteq> [] \<longrightarrow> (\<exists>s. calculate_statistics values = Inr s)) \<and>
   (b = [] \<or> opt = [] \<longrightarrow>
      fst (validate_performance_comparison v b opt) = Inl EmptyDataset)"
proof -
  have e: "calculate_statistics [] = Inl EmptyDataset"
    by (simp add: calculate_statistics_def)
  have n: "values \<noteq> [] \<Longrightarrow> \<exists>s. calculate_statistics values = Inr s"
    using calculate_statistics_Inr[of "values"] by simp
  have v: "fst (validate_performance_comparison v b opt) = Inl EmptyDataset"
    if "b = [] \<or> opt = []"
  proof (cases "b = []")
    case True
    then show ?thesis by (simp add: validate_empty_baseline)
  next
    case False
    with that have "opt = []" by simp
    with False show ?thesis by (simp add: validate_empty_optimized)
  qed
  show ?thesis using e n v by (cases "values = []") auto
qed

theorem empty_sample_error_witness:
  "[4, 2] \<noteq> ([] :: real list) \<and> (\<exists>s. calculate_statistics [4, 2] = Inr s) \<and>
   calculate_statistics [] = Inl EmptyDataset \<and>
   fst (validate_performance_comparison (init True) [] [4, 2]) = Inl EmptyDataset \<and>
   fst (validate_performance_comparison (init True) [4, 2] []) = Inl EmptyDataset"
  using empty_sample_error[of "[4, 2]" "[]" "[4, 2]" "init True"]
    empty_sample_error[of "[]" "[4, 2]" "[]" "init True"]
  by simp



text \<open>
  Claim C8. A sample that repeats one value \<open>v\<close> at least twice has standard deviation
  \<open>0\<close>, coefficient of variation \<open>0\<close> and the confidence interval \<open>(v, v)\<close>; a sample of
  one element has standard deviation and coefficient of variation \<open>0\<close> and the point
  interval at its mean, which is the element.
\<close>

theorem constant_sample_summary:
  "(2 \<le> n \<longrightarrow>
      (\<exists>s. calculate_statistics (replicate n v) = Inr s \<and>
           std_dev s = 0 \<and> coefficient_variation s = 0 \<and> confidence_interval_95 s = (v, v))) \<and>
   (\<exists>s. calculate_statistics [x] = Inr s \<and>
        std_dev s = 0 \<and> coefficient_variation s = 0 \<and>
        confidence_interval_95 s = (mean s, mean s) \<and> mean s = x)"
proof (intro conjI impI)
  assume "2 \<le> n"
  then have n: "0 < n" by simp
  then obtain s where s: "calculate_statistics (replicate n v) = Inr s"
    using calculate_statistics_Inr[of "replicate n v"] by auto
  show "\<exists>s. calculate_statistics (replicate n v) = Inr s \<and>
           std_dev s = 0 \<and> coefficient_variation s = 0 \<and> confidence_interval_95 s = (v, v)"
    using s cv_replicate[OF n s] by simp
next
  have r: "[x] = replicate 1 x" by simp
  obtain s where s: "calculate_statistics (replicate 1 x) = Inr s"
    using calculate_statistics_Inr[of "replicate 1 x"] by auto
  show "\<exists>s. calculate_statistics [x] = Inr s \<and>
        std_dev s = 0 \<and> coefficient_variation s = 0 \<and>
        confidence_interval_95 s = (mean s, mean s) \<and> mean s = x"
    unfolding r using s cv_replicate[OF _ s] by simp
qed

theorem constant_sample_summary_witness:
  "(2::nat) \<le> 3 \<and>
   (\<exists>s. calculate_statistics [7, 7, 7] = Inr s \<and>
        std_dev s = 0 \<and> coefficient_variation s = 0 \<and> confidence_interval_95 s = (7, 7))"
proof -
  have r: "replicate 3 (7::real) = [7, 7, 7]" by (simp add: numeral_eq_Suc)
  show ?thesis using constant_sample_summary[of 3 7 0] unfolding r by simp
qed



text \<open>
  Claim C10. A call with an empty baseline raises the empty-dataset error, and the
  validator it leaves behind has had its violation list reset and refilled with the
  message for a baseline of size zero, whatever the list held before. On a fresh
  validator the list therefore differs from the one before the call.
\<close>

theorem empty_baseline_not_atomic:
  "validate_performance_comparison v [] opt =
     (Inl EmptyDataset, v\<lparr>violations := [''Insufficient sample size: 0 < 30'']\<rparr>) \<and>
   violations (snd (validate_performance_comparison (init strict) [] opt)) \<noteq>
     violations (init strict)"
  by (simp add: validate_empty_baseline sample_size_message_0 init_def)

lemma round_half_even_err: "\<bar>of_int (round_half_even y) - y\<bar> \<le> 1 / 2"
proof -
  define f where "f = \<lfloor>y\<rfloor>"
  have f: "of_int f \<le> y" "y < of_int f + 1" unfolding f_def by linarith+
  have "round_half_even y =
      (if y - of_int f < 1 / 2 then f else if 1 / 2 < y - of_int f then f + 1
       else if even f then f else f + 1)"
    by (simp add: round_half_even_def Let_def f_def)
  then show ?thesis using f by (auto simp: abs_if split: if_splits)
qed

lemma round_half_even_of_int: "round_half_even (of_int k) = k"
  by (simp add: round_half_even_def)

lemma round_half_even_nonneg: "0 \<le> y \<Longrightarrow> 0 \<le> round_half_even y"
  by (auto simp: round_half_even_def Let_def)

lemma two_powi_binade:
  assumes "x \<noteq> 0"
  shows "2 powi binade x \<le> \<bar>x\<bar>" "\<bar>x\<bar> < 2 powi (binade x + 1)"
proof -
  have pos: "0 < \<bar>x\<bar>" using assms by simp
  have p: "(2::real) powr real_of_int k = 2 powi k" for k
    by (rule powr_real_of_int') simp_all
  have s: "real_of_int (binade x) + 1 = real_of_int (binade x + 1)" by simp
  have "\<lfloor>log 2 \<bar>x\<bar>\<rfloor> = binade x" by (simp add: binade_def)
  then have "2 powr real_of_int (binade x) \<le> \<bar>x\<bar> \<and>
             \<bar>x\<bar> < 2 powr (real_of_int (binade x) + 1)"
    using floor_log_eq_powr_iff[OF pos, of 2 "binade x"] by simp
  then show "2 powi binade x \<le> \<bar>x\<bar>" "\<bar>x\<bar> < 2 powi (binade x + 1)"
    unfolding s p by blast+
qed

lemma binade_eqI:
  assumes "2 powi e \<le> \<bar>x\<bar>" "\<bar>x\<bar> < 2 powi (e + 1)"
  shows "binade x = e"
proof -
  have "(0::real) < 2 powi e" by simp
  with assms(1) have pos: "0 < \<bar>x\<bar>" by linarith
  have p: "(2::real) powr real_of_int k = 2 powi k" for k
    by (rule powr_real_of_int') simp_all
  have s: "real_of_int e + 1 = real_of_int (e + 1)" by simp
  have "2 powr real_of_int e \<le> \<bar>x\<bar> \<and> \<bar>x\<bar> < 2 powr (real_of_int e + 1)"
    unfolding s p using assms by blast
  then show ?thesis
    unfolding binade_def using floor_log_eq_powr_iff[OF pos, of 2 e] by simp
qed

lemma rnd64_err_ulp:
  "\<bar>rnd64 x - x\<bar> \<le> 2 powi ulp_exponent x / 2"
proof (cases "x = 0")
  case True
  then show ?thesis by (simp add: rnd64_def)
next
  case False
  define q :: real where "q = 2 powi ulp_exponent x"
  have q: "0 < q" by (simp add: q_def)
  have "rnd64 x - x = (of_int (round_half_even (x / q)) - x / q) * q"
    using False q by (simp add: rnd64_def q_def field_simps)
  then have "\<bar>rnd64 x - x\<bar> = \<bar>of_int (round_half_even (x / q)) - x / q\<bar> * q"
    using q by (simp add: abs_mult)
  also have "\<dots> \<le> (1 / 2) * q"
    using round_half_even_err[of "x / q"] q by (intro mult_right_mono) simp_all
  finally show ?thesis by (simp add: q_def)
qed

lemma rnd64_err:
  "\<bar>rnd64 x - x\<bar> \<le> \<bar>x\<bar> / 2 ^ 53 + 1 / 2 ^ 1075"
proof (cases "x = 0")
  case True
  then show ?thesis by (simp add: rnd64_def)
next
  case False
  show ?thesis
  proof (cases "- 1074 \<le> binade x - 52")
    case True
    then have u: "ulp_exponent x = binade x - 52" by (simp add: ulp_exponent_def)
    have "(2::real) powi (binade x - 52) = 2 powi binade x / 2 ^ 52"
      by (simp add: power_int_diff)
    then have "(2::real) powi ulp_exponent x / 2 = 2 powi binade x / 2 ^ 53"
      unfolding u by simp
    also have "\<dots> \<le> \<bar>x\<bar> / 2 ^ 53"
      using two_powi_binade(1)[OF False] by (simp add: divide_right_mono)
    finally have "(2::real) powi ulp_exponent x / 2 \<le> \<bar>x\<bar> / 2 ^ 53" .
    with rnd64_err_ulp[of x] show ?thesis by simp
  next
    case False
    then have u: "ulp_exponent x = - 1074" by (simp add: ulp_exponent_def)
    have e: "(2::real) powi (- 1074) / 2 = 1 / 2 ^ 1075"
      by (simp add: power_int_minus field_simps)
    have "\<bar>rnd64 x - x\<bar> \<le> 1 / 2 ^ 1075"
      using rnd64_err_ulp[of x] unfolding u e .
    moreover have "0 \<le> \<bar>x\<bar> / 2 ^ 53" by simp
    ultimately show ?thesis by (rule order_trans[OF _ le_add_same_cancel2[THEN iffD2]])
  qed
qed

lemma rnd64_nonneg: "0 \<le> x \<Longrightarrow> 0 \<le> rnd64 x"
  by (simp add: rnd64_def round_half_even_nonneg)

lemma rnd64_eval:
  assumes "2 powi e \<le> \<bar>x\<bar>" "\<bar>x\<bar> < 2 powi (e + 1)" "u = max (e - 52) (- 1074)"
  shows "rnd64 x = of_int (round_half_even (x / 2 powi u)) * 2 powi u"
proof -
  have "(0::real) < 2 powi e" by simp
  with assms(1) have "0 < \<bar>x\<bar>" by linarith
  then have "x \<noteq> 0" by simp
  moreover have "ulp_exponent x = u"
    unfolding ulp_exponent_def binade_eqI[OF assms(1,2)] assms(3) ..
  ultimately show ?thesis by (simp add: rnd64_def)
qed

lemma rnd64_ge_half:
  assumes "1 \<le> x"
  shows "x / 2 \<le> rnd64 x"
proof -
  have "\<bar>rnd64 x - x\<bar> \<le> \<bar>x\<bar> / 2 ^ 53 + 1 / 2 ^ 1075" by (rule rnd64_err)
  moreover have "\<bar>x\<bar> / 2 ^ 53 \<le> x / 4" using assms by simp
  moreover have "(1::real) / 2 ^ 1075 \<le> 1 / 4" by simp
  ultimately show ?thesis using assms by linarith
qed

lemma rnd64_le_double:
  assumes "1 \<le> x"
  shows "rnd64 x \<le> 2 * x"
proof -
  have "\<bar>rnd64 x - x\<bar> \<le> \<bar>x\<bar> / 2 ^ 53 + 1 / 2 ^ 1075" by (rule rnd64_err)
  moreover have "\<bar>x\<bar> / 2 ^ 53 \<le> x / 4" using assms by simp
  moreover have "(1::real) / 2 ^ 1075 \<le> 1 / 4" by simp
  ultimately show ?thesis using assms by linarith
qed

lemma f64_round_Fin: "\<bar>x\<bar> < ROUND_TO_INF \<Longrightarrow> f64_round x = Fin (rnd64 x)"
  by (auto simp: f64_round_def)

lemma f64_of_ratio_Fin: "\<bar>x\<bar> < ROUND_TO_INF \<Longrightarrow> f64_of_ratio x = Inr (Fin (rnd64 x))"
  by (auto simp: f64_of_ratio_def)

lemma f64_truediv_total: "b \<noteq> Fin 0 \<Longrightarrow> \<exists>q. f64_truediv a b = Inr q"
  by (cases a; cases b) auto

lemma statistics_median_f64_total:
  "xs \<noteq> [] \<Longrightarrow> \<exists>m. statistics_median_f64 xs = Inr m"
  using f64_truediv_total[of "Fin 2"]
  by (auto simp: statistics_median_f64_def Let_def sort_eq_Nil_iff simp del: f64_truediv.simps f64_add.simps)

lemma ci_stage_f64:
  assumes "1 < n" "real n < ROUND_TO_INF"
  shows "\<exists>ci. bind_e (f64_of_int (int n)) (\<lambda>nf.
              bind_e (math_sqrt_f64 nf) (\<lambda>root.
              bind_e (f64_truediv sd root) (\<lambda>q.
              Inr (f64_sub m (f64_mul (Fin (rnd64 (196 / 100))) q),
                   f64_add m (f64_mul (Fin (rnd64 (196 / 100))) q))))) = Inr ci"
proof -
  have n1: "1 \<le> real n" using assms(1) by simp
  have nf: "f64_of_int (int n) = Inr (Fin (rnd64 (real n)))"
    using assms(2) by (simp add: f64_of_int_def f64_of_ratio_Fin)
  have r1: "1 / 2 \<le> rnd64 (real n)" using rnd64_ge_half[OF n1] n1 by linarith
  have r2: "1 \<le> rnd64 (real n)"
  proof -
    have "(2::real) \<le> real n" using assms(1) by simp
    then show ?thesis using rnd64_ge_half[OF n1] by linarith
  qed
  have s1: "1 \<le> sqrt (rnd64 (real n))" using r2 by simp
  have root: "math_sqrt_f64 (Fin (rnd64 (real n))) = Inr (Fin (rnd64 (sqrt (rnd64 (real n)))))"
    using r1 by simp
  have "0 < rnd64 (sqrt (rnd64 (real n)))" using rnd64_ge_half[OF s1] s1 by linarith
  then have "Fin (rnd64 (sqrt (rnd64 (real n)))) \<noteq> Fin 0" by simp
  then obtain q where q: "f64_truediv sd (Fin (rnd64 (sqrt (rnd64 (real n))))) = Inr q"
    using f64_truediv_total by blast
  show ?thesis unfolding nf root bind_e_Inr q by blast
qed

lemma cv_stage_f64:
  "\<exists>cv. (if m \<noteq> Fin 0 then f64_truediv sd m else Inr (Fin 0)) = Inr cv"
  using f64_truediv_total[of m sd] by auto

lemma calculate_statistics_f64_Inr:
  assumes ne: "values \<noteq> []"
    and len: "real (length values) < ROUND_TO_INF"
    and m: "statistics_mean_f64 values = Inr m"
    and sd: "(if 1 < length values then statistics_stdev_f64 values else Inr (Fin 0)) = Inr sd"
    and q25: "percentile_f64 (sort values) 25 = Inr q25"
    and q75: "percentile_f64 (sort values) 75 = Inr q75"
    and q95: "percentile_f64 (sort values) 95 = Inr q95"
    and q99: "percentile_f64 (sort values) 99 = Inr q99"
  shows "\<exists>s. calculate_statistics_f64 values = Inr s \<and>
             mean_f s = m \<and> statistics_median_f64 values = Inr (median_f s) \<and>
             std_dev_f s = sd \<and> p25_f s = q25 \<and> p75_f s = q75 \<and>
             p95_f s = q95 \<and> p99_f s = q99"
proof -
  obtain med where med: "statistics_median_f64 values = Inr med"
    using statistics_median_f64_total[OF ne] by blast
  obtain cv where cv: "(if m \<noteq> Fin 0 then f64_truediv sd m else Inr (Fin 0)) = Inr cv"
    using cv_stage_f64 by blast
  obtain ci where ci:
    "(if 1 < length values
      then bind_e (f64_of_int (int (length values))) (\<lambda>nf.
           bind_e (math_sqrt_f64 nf) (\<lambda>root.
           bind_e (f64_truediv sd root) (\<lambda>q.
           Inr (f64_sub m (f64_mul (Fin (rnd64 (196 / 100))) q),
                f64_add m (f64_mul (Fin (rnd64 (196 / 100))) q)))))
      else Inr (m, m)) = Inr ci"
  proof (cases "1 < length values")
    case True
    then show ?thesis using ci_stage_f64[OF True len, of sd m] that by auto
  next
    case False
    then show ?thesis using that by simp
  qed
  have "calculate_statistics_f64 values =
     Inr \<lparr>sample_size_f = length values, mean_f = m, median_f = med,
          std_dev_f = sd, min_val_f = Fin (Min (set values)), max_val_f = Fin (Max (set values)),
          p25_f = q25, p75_f = q75, p95_f = q95, p99_f = q99,
          confidence_interval_95_f = ci, coefficient_variation_f = cv\<rparr>"
    unfolding calculate_statistics_f64_def Let_def
    by (simp only: ne if_False m med sd q25 q75 q95 q99 ci cv bind_e_Inr
        py_min_Inr[OF ne] py_max_Inr[OF ne])
  then show ?thesis using med by simp
qed

lemma rnd64_upper:
  assumes "0 \<le> x"
  shows "rnd64 x \<le> x + x / 2 ^ 53 + 1 / 2 ^ 1075"
  using rnd64_err[of x] assms by (simp add: abs_le_iff)

lemma ROUND_TO_INF_big: "2 ^ 1023 \<le> ROUND_TO_INF"
  by (simp add: ROUND_TO_INF_def)

lemma percentile_rank_bound:
  assumes p: "0 \<le> p" "p \<le> 99" and N: "1 \<le> N"
  defines "P \<equiv> rnd64 (of_int p)"
  defines "C \<equiv> rnd64 (P / 100)"
  defines "M \<equiv> rnd64 N"
  shows "0 \<le> P" "P \<le> 100" "0 \<le> C" "C \<le> 1" "0 \<le> M" "M \<le> 2 * N"
    "0 \<le> C * M" "C * M \<le> 2 * N" "0 \<le> rnd64 (C * M)" "rnd64 (C * M) < N"
proof -
  have d: "(1::real) / 2 ^ 1075 \<le> 1 / 100000" by simp
  have p': "0 \<le> (of_int p :: real)" "(of_int p :: real) \<le> 99" using p by simp_all
  show P0: "0 \<le> P" unfolding P_def using p'(1) by (rule rnd64_nonneg)
  have "P \<le> of_int p + of_int p / 2 ^ 53 + 1 / 2 ^ 1075"
    unfolding P_def using p'(1) by (rule rnd64_upper)
  moreover have "(of_int p :: real) / 2 ^ 53 \<le> 1 / 100000" using p' by simp
  ultimately have P1: "P \<le> 99 + 2 / 100000" using p' d by linarith
  then show "P \<le> 100" by simp
  have c0: "0 \<le> P / 100" using P0 by simp
  show C0: "0 \<le> C" unfolding C_def using c0 by (rule rnd64_nonneg)
  have "C \<le> P / 100 + (P / 100) / 2 ^ 53 + 1 / 2 ^ 1075"
    unfolding C_def using c0 by (rule rnd64_upper)
  moreover have "(P / 100) / 2 ^ 53 \<le> 1 / 100000" using P1 P0 by simp
  ultimately have C1: "C \<le> 991 / 1000" using P1 d by linarith
  then show "C \<le> 1" by simp
  have N0: "0 \<le> N" using N by simp
  show M0: "0 \<le> M" unfolding M_def using N0 by (rule rnd64_nonneg)
  have "M \<le> N + N / 2 ^ 53 + 1 / 2 ^ 1075"
    unfolding M_def using N0 by (rule rnd64_upper)
  moreover have "N / 2 ^ 53 \<le> N / 100000" using N0 by (intro divide_left_mono) simp_all
  ultimately have M1: "M \<le> N * (1001 / 1000)" using N d by linarith
  then show "M \<le> 2 * N" using N0 by linarith
  show CM0: "0 \<le> C * M" using C0 M0 by simp
  have "C * M \<le> (991 / 1000) * (N * (1001 / 1000))"
    using C1 M1 C0 M0 by (intro mult_mono) simp_all
  then have CM1: "C * M \<le> N * (992 / 1000)" using N0 by simp
  then show "C * M \<le> 2 * N" using N0 by linarith
  show "0 \<le> rnd64 (C * M)" using CM0 by (rule rnd64_nonneg)
  have "rnd64 (C * M) \<le> C * M + (C * M) / 2 ^ 53 + 1 / 2 ^ 1075"
    using CM0 by (rule rnd64_upper)
  moreover have "(C * M) / 2 ^ 53 \<le> (C * M) / 100000"
    using CM0 by (intro divide_left_mono) simp_all
  ultimately show "rnd64 (C * M) < N" using CM1 CM0 N d by linarith
qed

lemma py_index_in_range: "0 \<le> i \<Longrightarrow> i < int (length xs) \<Longrightarrow> py_index xs i = Inr (xs ! nat i)"
  by (simp add: py_index_def)

lemma percentile_f64_formula:
  assumes n2: "2 \<le> length xs" and len: "real (length xs) < 2 ^ 1022"
    and p: "0 \<le> p" "p \<le> 99"
  defines "R \<equiv> rnd64 (rnd64 (rnd64 (of_int p) / 100) * rnd64 (real (length xs - 1)))"
  shows "percentile_f64 xs p =
      Inr (f64_add (f64_mul (Fin (xs ! nat \<lfloor>R\<rfloor>))
                            (f64_sub (Fin 1) (f64_sub (Fin R) (Fin (rnd64 (of_int \<lfloor>R\<rfloor>))))))
                   (f64_mul (Fin (xs ! nat (\<lfloor>R\<rfloor> + 1)))
                            (f64_sub (Fin R) (Fin (rnd64 (of_int \<lfloor>R\<rfloor>))))))"
    and "0 \<le> R" and "R < real (length xs - 1)"
proof -
  have ne: "xs \<noteq> []" using n2 by auto
  define n where "n = int (length xs)"
  define N where "N = real (length xs - 1)"
  have N1: "1 \<le> N" using n2 by (simp add: N_def)
  have Nn: "real_of_int (n - 1) = N" using n2 by (simp add: N_def n_def)
  define P where "P = rnd64 (of_int p)"
  define C where "C = rnd64 (P / 100)"
  define M where "M = rnd64 N"
  have R: "R = rnd64 (C * M)" by (simp add: R_def C_def P_def M_def N_def)
  have b: "0 \<le> P" "P \<le> 100" "0 \<le> C" "C \<le> 1" "0 \<le> M" "M \<le> 2 * N"
    "0 \<le> C * M" "C * M \<le> 2 * N" "0 \<le> R" "R < N"
    unfolding P_def C_def M_def R by (rule percentile_rank_bound[OF p N1])+
  have big: "N < 2 ^ 1022" using len n2 by (simp add: N_def)
  have inf: "2 * 2 ^ 1022 \<le> ROUND_TO_INF" "2 ^ 1022 \<le> ROUND_TO_INF"
    by (simp_all add: ROUND_TO_INF_def)
  have pf: "f64_of_int p = Inr (Fin P)"
  proof -
    have "\<bar>real_of_int p\<bar> \<le> 99" using p by simp
    moreover have "(99::real) < 2 ^ 1022" by simp
    ultimately have "\<bar>real_of_int p\<bar> < ROUND_TO_INF" using inf by linarith
    then show ?thesis by (simp add: f64_of_int_def f64_of_ratio_Fin P_def)
  qed
  have cf: "f64_truediv (Fin P) (Fin 100) = Inr (Fin C)"
  proof -
    have "\<bar>P / 100\<bar> \<le> 1" using b(1,2) by simp
    moreover have "(1::real) < 2 ^ 1022" by simp
    ultimately have "\<bar>P / 100\<bar> < ROUND_TO_INF" using inf by linarith
    then show ?thesis by (simp add: f64_round_Fin C_def)
  qed
  have mf: "f64_of_int (n - 1) = Inr (Fin M)"
  proof -
    have "\<bar>N\<bar> < ROUND_TO_INF" using big N1 inf by linarith
    then show ?thesis unfolding f64_of_int_def Nn M_def by (rule f64_of_ratio_Fin)
  qed
  have rf: "f64_mul (Fin C) (Fin M) = Fin R"
  proof -
    have "\<bar>C * M\<bar> \<le> 2 * N" using b(7,8) by simp
    then have "\<bar>C * M\<bar> < ROUND_TO_INF" using big inf by linarith
    then show ?thesis by (simp add: f64_round_Fin R)
  qed
  define l where "l = \<lfloor>R\<rfloor>"
  have l0: "0 \<le> l" using b(9) by (simp add: l_def)
  have "R < real_of_int (n - 1)" using b(10) Nn by simp
  then have l1: "l < n - 1" unfolding l_def by (simp add: floor_less_iff)
  have li: "f64_int (Fin R) = Inr l" using b(9) by (simp add: py_int_def l_def)
  have nn: "n \<noteq> 1" using n2 by (simp add: n_def)
  have up: "min (l + 1) (n - 1) = l + 1" using l1 by simp
  have neq: "l \<noteq> l + 1" by simp
  have lf: "f64_of_int l = Inr (Fin (rnd64 (of_int l)))"
  proof -
    have "real_of_int l \<le> real_of_int (n - 1)" using l1 by linarith
    then have "\<bar>real_of_int l\<bar> \<le> N" using l0 Nn by simp
    then have "\<bar>real_of_int l\<bar> < ROUND_TO_INF" using big inf by linarith
    then show ?thesis by (simp add: f64_of_int_def f64_of_ratio_Fin)
  qed
  have i1: "py_index xs l = Inr (xs ! nat l)"
    using l0 l1 by (intro py_index_in_range) (simp_all add: n_def)
  have i2: "py_index xs (l + 1) = Inr (xs ! nat (l + 1))"
    using l0 l1 by (intro py_index_in_range) (simp_all add: n_def)
  show "percentile_f64 xs p =
      Inr (f64_add (f64_mul (Fin (xs ! nat \<lfloor>R\<rfloor>))
                            (f64_sub (Fin 1) (f64_sub (Fin R) (Fin (rnd64 (of_int \<lfloor>R\<rfloor>))))))
                   (f64_mul (Fin (xs ! nat (\<lfloor>R\<rfloor> + 1)))
                            (f64_sub (Fin R) (Fin (rnd64 (of_int \<lfloor>R\<rfloor>))))))"
    unfolding percentile_f64_def Let_def n_def[symmetric] l_def[symmetric]
    by (simp only: ne nn if_False pf cf mf rf li up neq lf i1 i2 bind_e_Inr)
  show "0 \<le> R" by (rule b(9))
  show "R < real (length xs - 1)" using b(10) by (simp add: N_def)
qed

lemma percentile_f64_total:
  assumes ne: "xs \<noteq> []" and len: "real (length xs) < 2 ^ 1022"
    and p: "0 \<le> p" "p \<le> 99"
  shows "\<exists>v. percentile_f64 xs p = Inr v"
proof (cases "length xs = 1")
  case True
  then show ?thesis using ne
    by (simp add: percentile_f64_def py_index_def)
next
  case False
  with ne have n2: "2 \<le> length xs" by (cases xs) (auto simp: Suc_le_eq)
  show ?thesis using percentile_f64_formula(1)[OF n2 len p] by blast
qed

lemma abs_sum_list_le:
  assumes "\<forall>x\<in>set xs. \<bar>x\<bar> \<le> B"
  shows "\<bar>sum_list xs\<bar> \<le> real (length xs) * B"
  using assms
proof (induction xs)
  case Nil
  then show ?case by simp
next
  case (Cons x xs)
  then have "\<bar>sum_list xs\<bar> \<le> real (length xs) * B" "\<bar>x\<bar> \<le> B" by simp_all
  then show ?case by (simp add: algebra_simps)
qed

lemma abs_mean_le:
  assumes "xs \<noteq> []" "\<forall>x\<in>set xs. \<bar>x\<bar> \<le> B"
  shows "\<bar>sum_list xs / real (length xs)\<bar> \<le> B"
proof -
  have n: "0 < real (length xs)" using assms(1) by simp
  have "\<bar>sum_list xs\<bar> / real (length xs) \<le> (real (length xs) * B) / real (length xs)"
    using abs_sum_list_le[OF assms(2)] n by (intro divide_right_mono) simp_all
  then show ?thesis using n by simp
qed

lemma MAX_DOUBLE_less: "MAX_DOUBLE < ROUND_TO_INF"
  by (simp add: MAX_DOUBLE_def ROUND_TO_INF_def)

lemma statistics_mean_f64_Inr:
  assumes "xs \<noteq> []" "\<forall>x\<in>set xs. \<bar>x\<bar> \<le> MAX_DOUBLE"
  shows "statistics_mean_f64 xs = Inr (Fin (rnd64 (mean_of xs)))"
proof -
  have "\<bar>sum_list xs / real (length xs)\<bar> < ROUND_TO_INF"
    using abs_mean_le[OF assms] MAX_DOUBLE_less by linarith
  then show ?thesis using assms(1)
    by (simp add: statistics_mean_f64_def f64_of_ratio_Fin mean_of_def)
qed

lemma statistics_stdev_f64_eq:
  assumes "2 \<le> length xs"
  shows "statistics_stdev_f64 xs =
     (if ROUND_TO_INF \<le> sqrt (variance_of xs) then Inl OverflowError
      else Inr (Fin (rnd64 (sqrt (variance_of xs)))))"
proof -
  have "0 \<le> sqrt (variance_of xs)" by (simp add: variance_of_nonneg)
  then have a: "\<bar>sqrt (variance_of xs)\<bar> = sqrt (variance_of xs)" by simp
  have "statistics_stdev_f64 xs = f64_of_ratio (sqrt (variance_of xs))"
    using assms by (simp add: statistics_stdev_f64_def Let_def variance_of_def mean_of_def)
  then show ?thesis unfolding f64_of_ratio_def a by simp
qed

lemma calculate_statistics_f64_cases:
  assumes ne: "values \<noteq> []"
    and len: "length values < 2 ^ 63"
    and dbl: "\<forall>x\<in>set values. \<bar>x\<bar> \<le> MAX_DOUBLE"
  shows "if 1 < length values \<and> ROUND_TO_INF \<le> sqrt (variance_of values)
         then calculate_statistics_f64 values = Inl OverflowError
         else \<exists>s. calculate_statistics_f64 values = Inr s"
proof -
  have m: "statistics_mean_f64 values = Inr (Fin (rnd64 (mean_of values)))"
    using ne dbl by (rule statistics_mean_f64_Inr)
  obtain med where med: "statistics_median_f64 values = Inr med"
    using statistics_median_f64_total[OF ne] by blast
  have "real (length values) < 2 ^ 63" using len
    by (metis of_nat_less_iff of_nat_numeral of_nat_power)
  moreover have "(2::real) ^ 63 \<le> 2 ^ 1022" by (rule power_increasing) simp_all
  ultimately have l22: "real (length values) < 2 ^ 1022" by linarith
  have "(2::real) ^ 1022 \<le> ROUND_TO_INF" by (simp add: ROUND_TO_INF_def)
  with l22 have linf: "real (length values) < ROUND_TO_INF" by linarith
  show ?thesis
  proof (cases "1 < length values \<and> ROUND_TO_INF \<le> sqrt (variance_of values)")
    case True
    then have n2: "2 \<le> length values" by simp
    have sd: "statistics_stdev_f64 values = Inl OverflowError"
      using True by (simp add: statistics_stdev_f64_eq[OF n2])
    have "calculate_statistics_f64 values = Inl OverflowError"
      unfolding calculate_statistics_f64_def Let_def
      using True by (simp only: ne if_False m med sd bind_e_Inr bind_e_Inl if_True)
    then show ?thesis using True by simp
  next
    case False
    have sd: "\<exists>sd. (if 1 < length values then statistics_stdev_f64 values else Inr (Fin 0)) = Inr sd"
    proof (cases "1 < length values")
      case True
      then have n2: "2 \<le> length values" by simp
      show ?thesis using True False by (simp add: statistics_stdev_f64_eq[OF n2])
    next
      case False
      then show ?thesis by simp
    qed
    then obtain sd where sd: "(if 1 < length values then statistics_stdev_f64 values else Inr (Fin 0)) = Inr sd"
      by blast
    have sne: "sort values \<noteq> []" using ne by (simp add: sort_eq_Nil_iff)
    have sl: "real (length (sort values)) < 2 ^ 1022" using l22 by simp
    obtain q25 q75 q95 q99 where q:
      "percentile_f64 (sort values) 25 = Inr q25" "percentile_f64 (sort values) 75 = Inr q75"
      "percentile_f64 (sort values) 95 = Inr q95" "percentile_f64 (sort values) 99 = Inr q99"
      using percentile_f64_total[OF sne sl, of 25] percentile_f64_total[OF sne sl, of 75]
        percentile_f64_total[OF sne sl, of 95] percentile_f64_total[OF sne sl, of 99]
      by auto
    have "\<exists>s. calculate_statistics_f64 values = Inr s"
      using calculate_statistics_f64_Inr[OF ne linf m sd q] by blast
    then show ?thesis using False by (simp only: if_False)
  qed
qed

lemma rnd64_0: "rnd64 0 = 0"
  by (simp add: rnd64_def)

lemma rnd64_25: "rnd64 25 = 25"
  by (subst rnd64_eval[where e = 4 and u = "- 48"])
     (simp_all add: round_half_even_def power_int_minus)

lemma rnd64_1: "rnd64 1 = 1"
  by (subst rnd64_eval[where e = 0 and u = "- 52"])
     (simp_all add: round_half_even_def power_int_minus)

lemma rnd64_quarter: "rnd64 (1 / 4) = 1 / 4"
  by (subst rnd64_eval[where e = "- 2" and u = "- 54"])
     (simp_all add: round_half_even_def power_int_minus)

lemma rnd64_three_quarters: "rnd64 (3 / 4) = 3 / 4"
  by (subst rnd64_eval[where e = "- 1" and u = "- 53"])
     (simp_all add: round_half_even_def power_int_minus)

lemma tenth_is_double:
  "rnd64 (7205759403792794 / 2 ^ 56) = 7205759403792794 / 2 ^ 56"
  "rnd64 (7205759403792795 / 2 ^ 56) = 7205759403792795 / 2 ^ 56"
  by (subst rnd64_eval[where e = "- 4" and u = "- 56"],
      simp_all add: round_half_even_def power_int_minus)+

lemma tenth_sum:
  "rnd64 (7205759403792794 / 2 ^ 56 + 7205759403792795 / 2 ^ 56) = 7205759403792794 / 2 ^ 55"
  by (subst rnd64_eval[where e = "- 3" and u = "- 55"])
     (simp_all add: round_half_even_def power_int_minus)

lemma tenth_half:
  "rnd64 (7205759403792794 / 2 ^ 55 / 2) = 7205759403792794 / 2 ^ 56"
  by (subst rnd64_eval[where e = "- 4" and u = "- 56"])
     (simp_all add: round_half_even_def power_int_minus)

lemma tenth_left:
  "rnd64 (7205759403792794 / 2 ^ 56 * (3 / 4)) = 5404319552844596 / 2 ^ 56"
  by (subst rnd64_eval[where e = "- 4" and u = "- 56"])
     (simp_all add: round_half_even_def power_int_minus)

lemma tenth_right:
  "rnd64 (7205759403792795 / 2 ^ 56 * (1 / 4)) = 7205759403792795 / 2 ^ 58"
  by (subst rnd64_eval[where e = "- 6" and u = "- 58"])
     (simp_all add: round_half_even_def power_int_minus)

lemma tenth_interp:
  "rnd64 (5404319552844596 / 2 ^ 56 + 7205759403792795 / 2 ^ 58) = 7205759403792795 / 2 ^ 56"
  by (subst rnd64_eval[where e = "- 4" and u = "- 56"])
     (simp_all add: round_half_even_def power_int_minus)

lemma f64_round_small: "\<bar>x\<bar> \<le> 1 \<Longrightarrow> f64_round x = Fin (rnd64 x)"
proof -
  assume "\<bar>x\<bar> \<le> 1"
  moreover have "1 < ROUND_TO_INF" by (simp add: ROUND_TO_INF_def)
  ultimately have "\<bar>x\<bar> < ROUND_TO_INF" by linarith
  then show ?thesis by (rule f64_round_Fin)
qed

lemma tenth_summary:
  fixes A B :: real
  assumes A: "A = 7205759403792794 / 2 ^ 56" and B: "B = 7205759403792795 / 2 ^ 56"
  shows "\<exists>s. calculate_statistics_f64 [A, B] = Inr s \<and> median_f s = Fin A \<and> p25_f s = Fin B"
proof -
  have AB: "A \<le> B" "0 \<le> A" "B \<le> 1" by (simp_all add: A B)
  have srt: "sort [A, B] = [A, B]" using AB(1) by simp
  have ne: "[A, B] \<noteq> []" by simp
  have len: "length [A, B] < 2 ^ 63" by simp
  have l22: "real (length [A, B]) < 2 ^ 1022" by simp
  have linf: "real (length [A, B]) < ROUND_TO_INF" by (simp add: ROUND_TO_INF_def)
  have dbl: "\<forall>x\<in>set [A, B]. \<bar>x\<bar> \<le> MAX_DOUBLE"
  proof -
    have "1 \<le> MAX_DOUBLE" by (simp add: MAX_DOUBLE_def)
    then show ?thesis using AB by auto
  qed
  have m: "statistics_mean_f64 [A, B] = Inr (Fin (rnd64 (mean_of [A, B])))"
    using ne dbl by (rule statistics_mean_f64_Inr)
  have v1: "variance_of [A, B] \<le> 1"
    by (simp add: variance_of_def mean_of_def A B power2_eq_square)
  have "sqrt (variance_of [A, B]) \<le> 1" using v1 by simp
  moreover have "1 < ROUND_TO_INF" by (simp add: ROUND_TO_INF_def)
  ultimately have nov: "\<not> ROUND_TO_INF \<le> sqrt (variance_of [A, B])" by linarith
  have sd: "(if 1 < length [A, B] then statistics_stdev_f64 [A, B] else Inr (Fin 0)) =
            Inr (Fin (rnd64 (sqrt (variance_of [A, B]))))"
    using nov statistics_stdev_f64_eq[of "[A, B]"] by simp
  obtain q75 q95 q99 where q:
    "percentile_f64 (sort [A, B]) 75 = Inr q75" "percentile_f64 (sort [A, B]) 95 = Inr q95"
    "percentile_f64 (sort [A, B]) 99 = Inr q99"
    unfolding srt
    using percentile_f64_total[OF ne l22, of 75] percentile_f64_total[OF ne l22, of 95]
      percentile_f64_total[OF ne l22, of 99]
    by auto
  have R: "rnd64 (rnd64 (rnd64 (real_of_int 25) / 100) * rnd64 (real (length [A, B] - 1))) = 1 / 4"
    by (simp add: rnd64_25 rnd64_quarter rnd64_1)
  have w: "f64_sub (Fin (1 / 4)) (Fin 0) = Fin (1 / 4)"
    by (simp add: f64_sub_def f64_round_small rnd64_quarter)
  have w1: "f64_sub (Fin 1) (Fin (1 / 4)) = Fin (3 / 4)"
    by (simp add: f64_sub_def f64_round_small rnd64_three_quarters)
  have lft: "f64_mul (Fin A) (Fin (3 / 4)) = Fin (5404319552844596 / 2 ^ 56)"
  proof -
    have "\<bar>A * (3 / 4)\<bar> \<le> 1" by (simp add: A)
    then have "f64_mul (Fin A) (Fin (3 / 4)) = Fin (rnd64 (A * (3 / 4)))"
      by (simp only: f64_mul.simps f64_round_small)
    then show ?thesis unfolding A tenth_left .
  qed
  have rgt: "f64_mul (Fin B) (Fin (1 / 4)) = Fin (7205759403792795 / 2 ^ 58)"
  proof -
    have "\<bar>B * (1 / 4)\<bar> \<le> 1" by (simp add: B)
    then have "f64_mul (Fin B) (Fin (1 / 4)) = Fin (rnd64 (B * (1 / 4)))"
      by (simp only: f64_mul.simps f64_round_small)
    then show ?thesis unfolding B tenth_right .
  qed
  have sm: "f64_add (Fin (5404319552844596 / 2 ^ 56)) (Fin (7205759403792795 / 2 ^ 58)) = Fin B"
  proof -
    have "\<bar>5404319552844596 / 2 ^ 56 + 7205759403792795 / 2 ^ 58 :: real\<bar> \<le> 1" by simp
    then have "f64_add (Fin (5404319552844596 / 2 ^ 56)) (Fin (7205759403792795 / 2 ^ 58)) =
        Fin (rnd64 (5404319552844596 / 2 ^ 56 + 7205759403792795 / 2 ^ 58))"
      by (simp only: f64_add.simps f64_round_small)
    then show ?thesis unfolding B tenth_interp .
  qed
  have ix: "[A, B] ! nat \<lfloor>1 / 4 :: real\<rfloor> = A" "[A, B] ! nat (\<lfloor>1 / 4 :: real\<rfloor> + 1) = B"
    "rnd64 (real_of_int \<lfloor>1 / 4 :: real\<rfloor>) = 0"
    by (simp_all add: rnd64_0)
  have n2: "2 \<le> length [A, B]" by simp
  have "percentile_f64 [A, B] 25 =
      Inr (f64_add (f64_mul (Fin ([A, B] ! nat \<lfloor>1 / 4 :: real\<rfloor>))
                            (f64_sub (Fin 1) (f64_sub (Fin (1 / 4))
                               (Fin (rnd64 (real_of_int \<lfloor>1 / 4 :: real\<rfloor>))))))
                   (f64_mul (Fin ([A, B] ! nat (\<lfloor>1 / 4 :: real\<rfloor> + 1)))
                            (f64_sub (Fin (1 / 4))
                               (Fin (rnd64 (real_of_int \<lfloor>1 / 4 :: real\<rfloor>))))))"
    using percentile_f64_formula(1)[OF n2 l22, of 25] unfolding R by simp
  then have q25: "percentile_f64 (sort [A, B]) 25 = Inr (Fin B)"
    unfolding srt ix w w1 lft rgt sm .
  have md: "statistics_median_f64 [A, B] = Inr (Fin A)"
  proof -
    have "\<bar>A + B\<bar> \<le> 1" by (simp add: A B)
    then have "f64_add (Fin A) (Fin B) = Fin (rnd64 (A + B))"
      by (simp only: f64_add.simps f64_round_small)
    then have s: "f64_add (Fin A) (Fin B) = Fin (7205759403792794 / 2 ^ 55)"
      unfolding A B tenth_sum .
    have "\<bar>7205759403792794 / 2 ^ 55 / 2 :: real\<bar> \<le> 1" by simp
    then have "f64_truediv (Fin (7205759403792794 / 2 ^ 55)) (Fin 2) =
        Inr (Fin (rnd64 (7205759403792794 / 2 ^ 55 / 2)))"
      by (simp add: f64_round_small del: f64_round_def)
    then have d: "f64_truediv (Fin (7205759403792794 / 2 ^ 55)) (Fin 2) = Inr (Fin A)"
      unfolding tenth_half A .
    have "statistics_median_f64 [A, B] = f64_truediv (f64_add (Fin A) (Fin B)) (Fin 2)"
      unfolding statistics_median_f64_def Let_def srt by simp
    then show ?thesis unfolding s d .
  qed
  obtain s where s: "calculate_statistics_f64 [A, B] = Inr s"
    "statistics_median_f64 [A, B] = Inr (median_f s)" "p25_f s = Fin B"
    using calculate_statistics_f64_Inr[OF ne linf m sd q25 q] by blast
  from s(2) md have "median_f s = Fin A" by simp
  with s show ?thesis by blast
qed

end
